theory Spec2Isabelle
  imports Main "HOL-Library.Signed_Division"
begin

section \<open>C++ integer types\<close>

text \<open>
  The header \<^verbatim>\<open>fixed_point.hpp\<close> is a family of templates over integer types.
  A template type parameter becomes an explicit argument of type \<open>int_type\<close>: a
  signedness and a width in bits. A value of such a type is a mathematical integer inside
  the range of the type; every conversion and every arithmetic result is reduced into
  that range by \<open>cast\<close>, with the two's-complement wrap-around written out.
\<close>

datatype int_type = Signed nat | Unsigned nat

fun bits :: "int_type \<Rightarrow> nat" where
  "bits (Signed n) = n"
| "bits (Unsigned n) = n"

abbreviation int32_t :: int_type where "int32_t \<equiv> Signed 32"
abbreviation int64_t :: int_type where "int64_t \<equiv> Signed 64"
abbreviation int128_t :: int_type where "int128_t \<equiv> Signed 128"

text \<open>The types of the literals in the switch arms: \<^verbatim>\<open>10\<close> is an \<^verbatim>\<open>int\<close>,
  \<^verbatim>\<open>10000000000LL\<close> a \<^verbatim>\<open>long long\<close>, \<^verbatim>\<open>10000000000000000000ULL\<close> an
  \<^verbatim>\<open>unsigned long long\<close>.\<close>

abbreviation c_int :: int_type where "c_int \<equiv> Signed 32"
abbreviation c_long_long :: int_type where "c_long_long \<equiv> Signed 64"
abbreviation c_unsigned_long_long :: int_type where "c_unsigned_long_long \<equiv> Unsigned 64"

text \<open>\<^verbatim>\<open>enum scale_type : int32_t {}\<close>\<close>

abbreviation scale_type :: int_type where "scale_type \<equiv> Signed 32"

text \<open>\<^verbatim>\<open>static_cast<T>(v)\<close>: reduction modulo \<open>2 ^ bits T\<close> into the range of \<open>T\<close>.\<close>

fun cast :: "int_type \<Rightarrow> int \<Rightarrow> int" where
  "cast (Signed n) v = (v + 2 ^ (n - 1)) mod 2 ^ n - 2 ^ (n - 1)"
| "cast (Unsigned n) v = v mod 2 ^ n"

text \<open>\<^verbatim>\<open>cuda::std::numeric_limits<T>::min()\<close> and \<^verbatim>\<open>max()\<close>.\<close>

fun numeric_limits_min :: "int_type \<Rightarrow> int" where
  "numeric_limits_min (Signed n) = - (2 ^ (n - 1))"
| "numeric_limits_min (Unsigned n) = 0"

fun numeric_limits_max :: "int_type \<Rightarrow> int" where
  "numeric_limits_max (Signed n) = 2 ^ (n - 1) - 1"
| "numeric_limits_max (Unsigned n) = 2 ^ n - 1"

definition in_range :: "int_type \<Rightarrow> int \<Rightarrow> bool" where
  "in_range T v = (numeric_limits_min T \<le> v \<and> v \<le> numeric_limits_max T)"

text \<open>Integral promotion, and the usual arithmetic conversions on promoted operand types;
  \<open>arith_type\<close> is the type in which a binary arithmetic expression is evaluated, and it
  is also \<^verbatim>\<open>std::common_type_t\<close> of two integer types that are at least as wide as
  \<^verbatim>\<open>int\<close>.\<close>

fun promote :: "int_type \<Rightarrow> int_type" where
  "promote (Signed n) = (if n < 32 then c_int else Signed n)"
| "promote (Unsigned n) = (if n < 32 then c_int else Unsigned n)"

fun usual_arithmetic_conversion :: "int_type \<Rightarrow> int_type \<Rightarrow> int_type" where
  "usual_arithmetic_conversion (Signed a) (Signed b) = Signed (max a b)"
| "usual_arithmetic_conversion (Unsigned a) (Unsigned b) = Unsigned (max a b)"
| "usual_arithmetic_conversion (Signed a) (Unsigned b) =
     (if a \<le> b then Unsigned b else Signed a)"
| "usual_arithmetic_conversion (Unsigned a) (Signed b) =
     (if b \<le> a then Unsigned a else Signed b)"

definition arith_type :: "int_type \<Rightarrow> int_type \<Rightarrow> int_type" where
  "arith_type A B = usual_arithmetic_conversion (promote A) (promote B)"

text \<open>
  \<^verbatim>\<open>return value / lit;\<close> and \<^verbatim>\<open>return value * lit;\<close> in a function returning \<open>T\<close>,
  where \<open>value\<close> has type \<open>T\<close> and the literal has type \<open>L\<close>: both operands are converted
  to \<open>arith_type T L\<close>, the operation is done there (division truncates toward zero,
  multiplication wraps), and the result is converted to \<open>T\<close>.
\<close>

definition div_lit :: "int_type \<Rightarrow> int \<Rightarrow> int_type \<Rightarrow> int \<Rightarrow> int" where
  "div_lit T v L lit =
     (let A = arith_type T L in cast T (cast A (cast A v sdiv cast A lit)))"

definition mul_lit :: "int_type \<Rightarrow> int \<Rightarrow> int_type \<Rightarrow> int \<Rightarrow> int" where
  "mul_lit T v L lit =
     (let A = arith_type T L in cast T (cast A (cast A v * cast A lit)))"

section \<open>Power-of-10 kernels\<close>

text \<open>\<^verbatim>\<open>is_supported_representation_type<T>()\<close>\<close>

definition is_supported_representation_type :: "int_type \<Rightarrow> bool" where
  "is_supported_representation_type T = (T = int32_t \<or> T = int64_t \<or> T = int128_t)"

text \<open>
  \<^verbatim>\<open>large_power_of_10<Exp10>()\<close>, an \<^verbatim>\<open>__int128_t\<close>. The template is instantiated at
  19 to 38 only (a \<^verbatim>\<open>static_assert\<close> rejects \<open>Exp10 < 18\<close>); the recursion stops
  at 18.
\<close>

fun large_power_of_10 :: "nat \<Rightarrow> int" where
  "large_power_of_10 n =
     (if n \<le> 18 then 1000000000000000000
      else cast int128_t (large_power_of_10 (n - 1) * cast int128_t 10))"

declare large_power_of_10.simps [simp del]

definition divide_power10_32bit :: "int_type \<Rightarrow> int \<Rightarrow> int \<Rightarrow> int" where
  "divide_power10_32bit T v exp10 =
    (if exp10 = 0 then v
     else if exp10 = 1 then div_lit T v c_int 10
     else if exp10 = 2 then div_lit T v c_int 100
     else if exp10 = 3 then div_lit T v c_int 1000
     else if exp10 = 4 then div_lit T v c_int 10000
     else if exp10 = 5 then div_lit T v c_int 100000
     else if exp10 = 6 then div_lit T v c_int 1000000
     else if exp10 = 7 then div_lit T v c_int 10000000
     else if exp10 = 8 then div_lit T v c_int 100000000
     else if exp10 = 9 then div_lit T v c_int 1000000000
     else 0)"

definition divide_power10_64bit :: "int_type \<Rightarrow> int \<Rightarrow> int \<Rightarrow> int" where
  "divide_power10_64bit T v exp10 =
    (if exp10 = 0 then v
     else if exp10 = 1 then div_lit T v c_int 10
     else if exp10 = 2 then div_lit T v c_int 100
     else if exp10 = 3 then div_lit T v c_int 1000
     else if exp10 = 4 then div_lit T v c_int 10000
     else if exp10 = 5 then div_lit T v c_int 100000
     else if exp10 = 6 then div_lit T v c_int 1000000
     else if exp10 = 7 then div_lit T v c_int 10000000
     else if exp10 = 8 then div_lit T v c_int 100000000
     else if exp10 = 9 then div_lit T v c_int 1000000000
     else if exp10 = 10 then div_lit T v c_long_long 10000000000
     else if exp10 = 11 then div_lit T v c_long_long 100000000000
     else if exp10 = 12 then div_lit T v c_long_long 1000000000000
     else if exp10 = 13 then div_lit T v c_long_long 10000000000000
     else if exp10 = 14 then div_lit T v c_long_long 100000000000000
     else if exp10 = 15 then div_lit T v c_long_long 1000000000000000
     else if exp10 = 16 then div_lit T v c_long_long 10000000000000000
     else if exp10 = 17 then div_lit T v c_long_long 100000000000000000
     else if exp10 = 18 then div_lit T v c_long_long 1000000000000000000
     else if exp10 = 19 then div_lit T v c_unsigned_long_long 10000000000000000000
     else 0)"

definition divide_power10_128bit :: "int_type \<Rightarrow> int \<Rightarrow> int \<Rightarrow> int" where
  "divide_power10_128bit T v exp10 =
    (if exp10 = 0 then v
     else if exp10 = 1 then div_lit T v c_int 10
     else if exp10 = 2 then div_lit T v c_int 100
     else if exp10 = 3 then div_lit T v c_int 1000
     else if exp10 = 4 then div_lit T v c_int 10000
     else if exp10 = 5 then div_lit T v c_int 100000
     else if exp10 = 6 then div_lit T v c_int 1000000
     else if exp10 = 7 then div_lit T v c_int 10000000
     else if exp10 = 8 then div_lit T v c_int 100000000
     else if exp10 = 9 then div_lit T v c_int 1000000000
     else if exp10 = 10 then div_lit T v c_long_long 10000000000
     else if exp10 = 11 then div_lit T v c_long_long 100000000000
     else if exp10 = 12 then div_lit T v c_long_long 1000000000000
     else if exp10 = 13 then div_lit T v c_long_long 10000000000000
     else if exp10 = 14 then div_lit T v c_long_long 100000000000000
     else if exp10 = 15 then div_lit T v c_long_long 1000000000000000
     else if exp10 = 16 then div_lit T v c_long_long 10000000000000000
     else if exp10 = 17 then div_lit T v c_long_long 100000000000000000
     else if exp10 = 18 then div_lit T v c_long_long 1000000000000000000
     else if exp10 = 19 then div_lit T v int128_t (large_power_of_10 19)
     else if exp10 = 20 then div_lit T v int128_t (large_power_of_10 20)
     else if exp10 = 21 then div_lit T v int128_t (large_power_of_10 21)
     else if exp10 = 22 then div_lit T v int128_t (large_power_of_10 22)
     else if exp10 = 23 then div_lit T v int128_t (large_power_of_10 23)
     else if exp10 = 24 then div_lit T v int128_t (large_power_of_10 24)
     else if exp10 = 25 then div_lit T v int128_t (large_power_of_10 25)
     else if exp10 = 26 then div_lit T v int128_t (large_power_of_10 26)
     else if exp10 = 27 then div_lit T v int128_t (large_power_of_10 27)
     else if exp10 = 28 then div_lit T v int128_t (large_power_of_10 28)
     else if exp10 = 29 then div_lit T v int128_t (large_power_of_10 29)
     else if exp10 = 30 then div_lit T v int128_t (large_power_of_10 30)
     else if exp10 = 31 then div_lit T v int128_t (large_power_of_10 31)
     else if exp10 = 32 then div_lit T v int128_t (large_power_of_10 32)
     else if exp10 = 33 then div_lit T v int128_t (large_power_of_10 33)
     else if exp10 = 34 then div_lit T v int128_t (large_power_of_10 34)
     else if exp10 = 35 then div_lit T v int128_t (large_power_of_10 35)
     else if exp10 = 36 then div_lit T v int128_t (large_power_of_10 36)
     else if exp10 = 37 then div_lit T v int128_t (large_power_of_10 37)
     else if exp10 = 38 then div_lit T v int128_t (large_power_of_10 38)
     else 0)"

definition multiply_power10_32bit :: "int_type \<Rightarrow> int \<Rightarrow> int \<Rightarrow> int" where
  "multiply_power10_32bit T v exp10 =
    (if exp10 = 0 then v
     else if exp10 = 1 then mul_lit T v c_int 10
     else if exp10 = 2 then mul_lit T v c_int 100
     else if exp10 = 3 then mul_lit T v c_int 1000
     else if exp10 = 4 then mul_lit T v c_int 10000
     else if exp10 = 5 then mul_lit T v c_int 100000
     else if exp10 = 6 then mul_lit T v c_int 1000000
     else if exp10 = 7 then mul_lit T v c_int 10000000
     else if exp10 = 8 then mul_lit T v c_int 100000000
     else if exp10 = 9 then mul_lit T v c_int 1000000000
     else 0)"

definition multiply_power10_64bit :: "int_type \<Rightarrow> int \<Rightarrow> int \<Rightarrow> int" where
  "multiply_power10_64bit T v exp10 =
    (if exp10 = 0 then v
     else if exp10 = 1 then mul_lit T v c_int 10
     else if exp10 = 2 then mul_lit T v c_int 100
     else if exp10 = 3 then mul_lit T v c_int 1000
     else if exp10 = 4 then mul_lit T v c_int 10000
     else if exp10 = 5 then mul_lit T v c_int 100000
     else if exp10 = 6 then mul_lit T v c_int 1000000
     else if exp10 = 7 then mul_lit T v c_int 10000000
     else if exp10 = 8 then mul_lit T v c_int 100000000
     else if exp10 = 9 then mul_lit T v c_int 1000000000
     else if exp10 = 10 then mul_lit T v c_long_long 10000000000
     else if exp10 = 11 then mul_lit T v c_long_long 100000000000
     else if exp10 = 12 then mul_lit T v c_long_long 1000000000000
     else if exp10 = 13 then mul_lit T v c_long_long 10000000000000
     else if exp10 = 14 then mul_lit T v c_long_long 100000000000000
     else if exp10 = 15 then mul_lit T v c_long_long 1000000000000000
     else if exp10 = 16 then mul_lit T v c_long_long 10000000000000000
     else if exp10 = 17 then mul_lit T v c_long_long 100000000000000000
     else if exp10 = 18 then mul_lit T v c_long_long 1000000000000000000
     else if exp10 = 19 then mul_lit T v c_unsigned_long_long 10000000000000000000
     else 0)"

definition multiply_power10_128bit :: "int_type \<Rightarrow> int \<Rightarrow> int \<Rightarrow> int" where
  "multiply_power10_128bit T v exp10 =
    (if exp10 = 0 then v
     else if exp10 = 1 then mul_lit T v c_int 10
     else if exp10 = 2 then mul_lit T v c_int 100
     else if exp10 = 3 then mul_lit T v c_int 1000
     else if exp10 = 4 then mul_lit T v c_int 10000
     else if exp10 = 5 then mul_lit T v c_int 100000
     else if exp10 = 6 then mul_lit T v c_int 1000000
     else if exp10 = 7 then mul_lit T v c_int 10000000
     else if exp10 = 8 then mul_lit T v c_int 100000000
     else if exp10 = 9 then mul_lit T v c_int 1000000000
     else if exp10 = 10 then mul_lit T v c_long_long 10000000000
     else if exp10 = 11 then mul_lit T v c_long_long 100000000000
     else if exp10 = 12 then mul_lit T v c_long_long 1000000000000
     else if exp10 = 13 then mul_lit T v c_long_long 10000000000000
     else if exp10 = 14 then mul_lit T v c_long_long 100000000000000
     else if exp10 = 15 then mul_lit T v c_long_long 1000000000000000
     else if exp10 = 16 then mul_lit T v c_long_long 10000000000000000
     else if exp10 = 17 then mul_lit T v c_long_long 100000000000000000
     else if exp10 = 18 then mul_lit T v c_long_long 1000000000000000000
     else if exp10 = 19 then mul_lit T v int128_t (large_power_of_10 19)
     else if exp10 = 20 then mul_lit T v int128_t (large_power_of_10 20)
     else if exp10 = 21 then mul_lit T v int128_t (large_power_of_10 21)
     else if exp10 = 22 then mul_lit T v int128_t (large_power_of_10 22)
     else if exp10 = 23 then mul_lit T v int128_t (large_power_of_10 23)
     else if exp10 = 24 then mul_lit T v int128_t (large_power_of_10 24)
     else if exp10 = 25 then mul_lit T v int128_t (large_power_of_10 25)
     else if exp10 = 26 then mul_lit T v int128_t (large_power_of_10 26)
     else if exp10 = 27 then mul_lit T v int128_t (large_power_of_10 27)
     else if exp10 = 28 then mul_lit T v int128_t (large_power_of_10 28)
     else if exp10 = 29 then mul_lit T v int128_t (large_power_of_10 29)
     else if exp10 = 30 then mul_lit T v int128_t (large_power_of_10 30)
     else if exp10 = 31 then mul_lit T v int128_t (large_power_of_10 31)
     else if exp10 = 32 then mul_lit T v int128_t (large_power_of_10 32)
     else if exp10 = 33 then mul_lit T v int128_t (large_power_of_10 33)
     else if exp10 = 34 then mul_lit T v int128_t (large_power_of_10 34)
     else if exp10 = 35 then mul_lit T v int128_t (large_power_of_10 35)
     else if exp10 = 36 then mul_lit T v int128_t (large_power_of_10 36)
     else if exp10 = 37 then mul_lit T v int128_t (large_power_of_10 37)
     else if exp10 = 38 then mul_lit T v int128_t (large_power_of_10 38)
     else 0)"

text \<open>\<^verbatim>\<open>multiply_power10<Rep>(value, exp10)\<close> and \<^verbatim>\<open>divide_power10<Rep>(value, exp10)\<close>
  select the kernel by \<^verbatim>\<open>sizeof(Rep)\<close>; \<open>T\<close> is the type of \<open>value\<close>.\<close>

definition multiply_power10 :: "int_type \<Rightarrow> int_type \<Rightarrow> int \<Rightarrow> int \<Rightarrow> int" where
  "multiply_power10 Rep T v exp10 =
    (if bits Rep \<le> 32 then multiply_power10_32bit T v exp10
     else if bits Rep \<le> 64 then multiply_power10_64bit T v exp10
     else multiply_power10_128bit T v exp10)"

definition divide_power10 :: "int_type \<Rightarrow> int_type \<Rightarrow> int \<Rightarrow> int \<Rightarrow> int" where
  "divide_power10 Rep T v exp10 =
    (if bits Rep \<le> 32 then divide_power10_32bit T v exp10
     else if bits Rep \<le> 64 then divide_power10_64bit T v exp10
     else divide_power10_128bit T v exp10)"

section \<open>Shift primitives\<close>

datatype Radix = BASE_2 | BASE_10

text \<open>The enumerators' values: \<^verbatim>\<open>BASE_2 = 2, BASE_10 = 10\<close>.\<close>

fun radix_value :: "Radix \<Rightarrow> int" where
  "radix_value BASE_2 = 2"
| "radix_value BASE_10 = 10"

text \<open>
  \<^verbatim>\<open>right_shift<Rep, Rad>(val, scale)\<close> and \<^verbatim>\<open>left_shift<Rep, Rad>(val, scale)\<close> for an
  integral \<open>T\<close> (the branches for a non-integral \<open>T\<close> are never instantiated by
  \<^verbatim>\<open>fixed_point\<close>). In base 2 the C++ shift operators are used: \<^verbatim>\<open>>>\<close> is the
  arithmetic shift, a floor division by a power of two, \<^verbatim>\<open><<\<close> a multiplication that
  wraps. C++ leaves a shift by a negative count or by the width or more undefined; the
  theorems below make no statement about such counts.
\<close>

definition right_shift :: "int_type \<Rightarrow> Radix \<Rightarrow> int_type \<Rightarrow> int \<Rightarrow> int \<Rightarrow> int" where
  "right_shift Rep Rad T val scale =
    (let int_scale = cast int32_t scale in
     case Rad of
       BASE_10 \<Rightarrow> divide_power10 Rep T val int_scale
     | BASE_2 \<Rightarrow> cast T (val div 2 ^ nat int_scale))"

definition left_shift :: "int_type \<Rightarrow> Radix \<Rightarrow> int_type \<Rightarrow> int \<Rightarrow> int \<Rightarrow> int" where
  "left_shift Rep Rad T val scale =
    (let int_scale = cast int32_t (- cast int32_t scale) in
     case Rad of
       BASE_10 \<Rightarrow> multiply_power10 Rep T val int_scale
     | BASE_2 \<Rightarrow> cast T (val * 2 ^ nat int_scale))"

definition shift :: "int_type \<Rightarrow> Radix \<Rightarrow> int_type \<Rightarrow> int \<Rightarrow> int \<Rightarrow> int" where
  "shift Rep Rad T val scale =
    (if scale = 0 then val
     else if scale > 0 then right_shift Rep Rad T val scale
     else left_shift Rep Rad T val scale)"

section \<open>The value type\<close>

record scaled_integer =
  si_value :: int
  si_scale :: int

text \<open>\<^verbatim>\<open>class fixed_point<Rep, Rad>\<close> with its members \<^verbatim>\<open>_value\<close> and \<^verbatim>\<open>_scale\<close>; the
  template parameters are arguments of every operation.\<close>

record fixed_point =
  m_value :: int
  m_scale :: int

definition well_formed :: "int_type \<Rightarrow> fixed_point \<Rightarrow> bool" where
  "well_formed Rep x = (in_range Rep (m_value x) \<and> in_range scale_type (m_scale x))"

text \<open>\<^verbatim>\<open>fixed_point(T const& value, scale_type const& scale)\<close>: the shifting constructor.
  \<open>T\<close> is the type of \<open>v\<close>.\<close>

definition fixed_point_shifted :: "int_type \<Rightarrow> Radix \<Rightarrow> int \<Rightarrow> int \<Rightarrow> fixed_point" where
  "fixed_point_shifted Rep Rad v scale =
     \<lparr>m_value = shift Rep Rad Rep (cast Rep v) scale, m_scale = scale\<rparr>"

text \<open>\<^verbatim>\<open>fixed_point(scaled_integer<Rep> s)\<close>: no shifting.\<close>

definition fixed_point_raw :: "scaled_integer \<Rightarrow> fixed_point" where
  "fixed_point_raw s = \<lparr>m_value = si_value s, m_scale = si_scale s\<rparr>"

text \<open>\<^verbatim>\<open>fixed_point(T const& value)\<close>: scale zero, no shifting.\<close>

definition fixed_point_scaleless :: "int_type \<Rightarrow> int \<Rightarrow> fixed_point" where
  "fixed_point_scaleless Rep v = \<lparr>m_value = cast Rep v, m_scale = 0\<rparr>"

text \<open>\<^verbatim>\<open>explicit operator U()\<close>\<close>

definition to_integral :: "int_type \<Rightarrow> int_type \<Rightarrow> Radix \<Rightarrow> fixed_point \<Rightarrow> int" where
  "to_integral U Rep Rad x =
    (let C = arith_type U Rep;
         v = cast C (m_value x)
     in cast U (shift Rep Rad C v (cast scale_type (- m_scale x))))"

text \<open>\<^verbatim>\<open>explicit operator bool()\<close>\<close>

definition to_bool :: "fixed_point \<Rightarrow> bool" where
  "to_bool x = (m_value x \<noteq> 0)"

text \<open>\<^verbatim>\<open>rescaled(scale_type scale)\<close>\<close>

definition rescaled :: "int_type \<Rightarrow> Radix \<Rightarrow> fixed_point \<Rightarrow> int \<Rightarrow> fixed_point" where
  "rescaled Rep Rad x scale =
    (if scale = m_scale x then x
     else \<lparr>m_value = shift Rep Rad Rep (m_value x) (cast scale_type (scale - m_scale x)),
           m_scale = scale\<rparr>)"

section \<open>Overflow predicates\<close>

text \<open>
  \<^verbatim>\<open>addition_overflow<Rep, T>(lhs, rhs)\<close> and its siblings. \<open>lhs\<close> and \<open>rhs\<close> have type
  \<open>T\<close>, the limits have type \<open>Rep\<close>; the arithmetic and the comparisons are done in
  \<open>arith_type Rep T\<close>, the comparisons of \<open>rhs\<close> with the literals
  \<^verbatim>\<open>0\<close> and \<^verbatim>\<open>-1\<close> in \<open>arith_type T c_int\<close>.
\<close>

definition addition_overflow :: "int_type \<Rightarrow> int_type \<Rightarrow> int \<Rightarrow> int \<Rightarrow> bool" where
  "addition_overflow Rep T lhs rhs =
    (let A = arith_type Rep T; I = arith_type T c_int in
     if cast I rhs > cast I 0
     then cast A lhs > cast A (cast A (numeric_limits_max Rep) - cast A rhs)
     else cast A lhs < cast A (cast A (numeric_limits_min Rep) - cast A rhs))"

definition subtraction_overflow :: "int_type \<Rightarrow> int_type \<Rightarrow> int \<Rightarrow> int \<Rightarrow> bool" where
  "subtraction_overflow Rep T lhs rhs =
    (let A = arith_type Rep T; I = arith_type T c_int in
     if cast I rhs > cast I 0
     then cast A lhs < cast A (cast A (numeric_limits_min Rep) + cast A rhs)
     else cast A lhs > cast A (cast A (numeric_limits_max Rep) + cast A rhs))"

definition division_overflow :: "int_type \<Rightarrow> int_type \<Rightarrow> int \<Rightarrow> int \<Rightarrow> bool" where
  "division_overflow Rep T lhs rhs =
    (let A = arith_type Rep T; I = arith_type T c_int in
     cast A lhs = cast A (numeric_limits_min Rep) \<and> cast I rhs = cast I (- 1))"

definition multiplication_overflow :: "int_type \<Rightarrow> int_type \<Rightarrow> int \<Rightarrow> int \<Rightarrow> bool" where
  "multiplication_overflow Rep T lhs rhs =
    (let A = arith_type Rep T; I = arith_type T c_int;
         min = numeric_limits_min Rep; max = numeric_limits_max Rep in
     if cast I rhs > cast I 0
     then cast A lhs > cast A (cast A max sdiv cast A rhs)
        \<or> cast A lhs < cast A (cast A min sdiv cast A rhs)
     else if cast I rhs < cast I (- 1)
     then cast A lhs > cast A (cast A min sdiv cast A rhs)
        \<or> cast A lhs < cast A (cast A max sdiv cast A rhs)
     else cast I rhs = cast I (- 1) \<and> cast A lhs = cast A min)"

section \<open>Operators\<close>

text \<open>
  The arithmetic operators assert the absence of overflow when the header is compiled
  with \<^verbatim>\<open>__CUDACC_DEBUG__\<close>; \<open>dbg\<close> tells whether it is. A failed assertion, and an
  integer division by zero, end the program: the result is \<open>None\<close>. Without the
  assertion the coefficient wraps.
\<close>

definition operator_plus ::
  "bool \<Rightarrow> int_type \<Rightarrow> Radix \<Rightarrow> fixed_point \<Rightarrow> fixed_point \<Rightarrow> fixed_point option" where
  "operator_plus dbg Rep Rad lhs rhs =
    (let scale = min (m_scale lhs) (m_scale rhs);
         l = m_value (rescaled Rep Rad lhs scale);
         r = m_value (rescaled Rep Rad rhs scale);
         sum = cast Rep (l + r)
     in if dbg \<and> addition_overflow Rep Rep l r then None
        else Some \<lparr>m_value = sum, m_scale = scale\<rparr>)"

definition operator_minus ::
  "bool \<Rightarrow> int_type \<Rightarrow> Radix \<Rightarrow> fixed_point \<Rightarrow> fixed_point \<Rightarrow> fixed_point option" where
  "operator_minus dbg Rep Rad lhs rhs =
    (let scale = min (m_scale lhs) (m_scale rhs);
         l = m_value (rescaled Rep Rad lhs scale);
         r = m_value (rescaled Rep Rad rhs scale);
         diff = cast Rep (l - r)
     in if dbg \<and> subtraction_overflow Rep Rep l r then None
        else Some \<lparr>m_value = diff, m_scale = scale\<rparr>)"

definition operator_times ::
  "bool \<Rightarrow> int_type \<Rightarrow> Radix \<Rightarrow> fixed_point \<Rightarrow> fixed_point \<Rightarrow> fixed_point option" where
  "operator_times dbg Rep Rad lhs rhs =
    (if dbg \<and> multiplication_overflow Rep Rep (m_value lhs) (m_value rhs) then None
     else Some \<lparr>m_value = cast Rep (m_value lhs * m_value rhs),
                m_scale = cast scale_type (m_scale lhs + m_scale rhs)\<rparr>)"

definition operator_divide ::
  "bool \<Rightarrow> int_type \<Rightarrow> Radix \<Rightarrow> fixed_point \<Rightarrow> fixed_point \<Rightarrow> fixed_point option" where
  "operator_divide dbg Rep Rad lhs rhs =
    (if dbg \<and> division_overflow Rep Rep (m_value lhs) (m_value rhs) then None
     else if m_value rhs = 0 then None
     else Some \<lparr>m_value = cast Rep (m_value lhs sdiv m_value rhs),
                m_scale = cast scale_type (m_scale lhs - m_scale rhs)\<rparr>)"

definition operator_modulo ::
  "int_type \<Rightarrow> Radix \<Rightarrow> fixed_point \<Rightarrow> fixed_point \<Rightarrow> fixed_point option" where
  "operator_modulo Rep Rad lhs rhs =
    (let scale = min (m_scale lhs) (m_scale rhs);
         l = m_value (rescaled Rep Rad lhs scale);
         r = m_value (rescaled Rep Rad rhs scale)
     in if r = 0 then None
        else Some \<lparr>m_value = cast Rep (l smod r), m_scale = scale\<rparr>)"

definition operator_eq :: "int_type \<Rightarrow> Radix \<Rightarrow> fixed_point \<Rightarrow> fixed_point \<Rightarrow> bool" where
  "operator_eq Rep Rad lhs rhs =
    (let scale = min (m_scale lhs) (m_scale rhs) in
     m_value (rescaled Rep Rad lhs scale) = m_value (rescaled Rep Rad rhs scale))"

definition operator_ne :: "int_type \<Rightarrow> Radix \<Rightarrow> fixed_point \<Rightarrow> fixed_point \<Rightarrow> bool" where
  "operator_ne Rep Rad lhs rhs =
    (let scale = min (m_scale lhs) (m_scale rhs) in
     m_value (rescaled Rep Rad lhs scale) \<noteq> m_value (rescaled Rep Rad rhs scale))"

definition operator_le :: "int_type \<Rightarrow> Radix \<Rightarrow> fixed_point \<Rightarrow> fixed_point \<Rightarrow> bool" where
  "operator_le Rep Rad lhs rhs =
    (let scale = min (m_scale lhs) (m_scale rhs) in
     m_value (rescaled Rep Rad lhs scale) \<le> m_value (rescaled Rep Rad rhs scale))"

definition operator_ge :: "int_type \<Rightarrow> Radix \<Rightarrow> fixed_point \<Rightarrow> fixed_point \<Rightarrow> bool" where
  "operator_ge Rep Rad lhs rhs =
    (let scale = min (m_scale lhs) (m_scale rhs) in
     m_value (rescaled Rep Rad lhs scale) \<ge> m_value (rescaled Rep Rad rhs scale))"

definition operator_lt :: "int_type \<Rightarrow> Radix \<Rightarrow> fixed_point \<Rightarrow> fixed_point \<Rightarrow> bool" where
  "operator_lt Rep Rad lhs rhs =
    (let scale = min (m_scale lhs) (m_scale rhs) in
     m_value (rescaled Rep Rad lhs scale) < m_value (rescaled Rep Rad rhs scale))"

definition operator_gt :: "int_type \<Rightarrow> Radix \<Rightarrow> fixed_point \<Rightarrow> fixed_point \<Rightarrow> bool" where
  "operator_gt Rep Rad lhs rhs =
    (let scale = min (m_scale lhs) (m_scale rhs) in
     m_value (rescaled Rep Rad lhs scale) > m_value (rescaled Rep Rad rhs scale))"

text \<open>\<^verbatim>\<open>operator++()\<close>: \<^verbatim>\<open>*this = *this + fixed_point<Rep, Rad>{1, scale_type{_scale}}\<close>\<close>

definition operator_increment ::
  "bool \<Rightarrow> int_type \<Rightarrow> Radix \<Rightarrow> fixed_point \<Rightarrow> fixed_point option" where
  "operator_increment dbg Rep Rad x =
     operator_plus dbg Rep Rad x (fixed_point_shifted Rep Rad 1 (m_scale x))"

section \<open>Formatting\<close>

text \<open>
  Modelled from the spec: \<^verbatim>\<open>detail::to_string\<close>, \<^verbatim>\<open>detail::abs\<close> and
  \<^verbatim>\<open>detail::exp10\<close> are declared in \<^verbatim>\<open>cudf/fixed_point/temporary.hpp\<close>, which is not
  among the sources. The spec calls them the decimal rendering of an integer, the
  absolute value \<open>|coefficient|\<close> and the power \<open>10^(-scale)\<close>, and they are these
  exact values here. The header binds the absolute value with \<^verbatim>\<open>auto\<close> and stores the
  power and the remainder in variables of type \<open>Rep\<close>; the conversions to \<open>Rep\<close> are
  written where those variables are.
\<close>

fun dec_digits :: "nat \<Rightarrow> string" where
  "dec_digits n =
     (if n < 10 then [''0123456789'' ! n]
      else dec_digits (n div 10) @ [''0123456789'' ! (n mod 10)])"

declare dec_digits.simps [simp del]

definition detail_to_string :: "int \<Rightarrow> string" where
  "detail_to_string v = (if v < 0 then ''-'' @ dec_digits (nat (- v)) else dec_digits (nat v))"

definition detail_abs :: "int \<Rightarrow> int" where
  "detail_abs v = \<bar>v\<bar>"

definition detail_exp10 :: "int_type \<Rightarrow> int \<Rightarrow> int" where
  "detail_exp10 T exponent = 10 ^ nat exponent"

text \<open>
  \<^verbatim>\<open>explicit operator std::string()\<close>, with \<^verbatim>\<open>Rep const n\<close> and \<^verbatim>\<open>Rep const f\<close>
  converted to \<open>Rep\<close>. The remainder and the quotient by \<open>n\<close> are integer divisions:
  with \<open>n = 0\<close> the program ends, and the result is \<open>None\<close>.
\<close>

definition to_string :: "int_type \<Rightarrow> fixed_point \<Rightarrow> string option" where
  "to_string Rep x =
    (if m_scale x < 0 then
       (let av = detail_abs (m_value x);
            n = cast Rep (detail_exp10 Rep (cast int32_t (- m_scale x)))
        in if n = 0 then None
           else
            (let f = cast Rep (av smod n);
                 num_zeros = max 0 (cast int32_t (cast int32_t (- m_scale x)
                               - cast int32_t (int (length (detail_to_string f)))));
                 zeros = replicate (nat num_zeros) (CHR ''0'');
                 sign = (if m_value x < 0 then ''-'' else [])
             in Some (sign @ detail_to_string (av sdiv n) @ ''.'' @ zeros
                        @ detail_to_string (av smod n))))
     else Some (detail_to_string (m_value x) @ replicate (nat (m_scale x)) (CHR ''0'')))"

section \<open>The rendering the specification describes\<close>

text \<open>The spec pads the decimal rendering of the fractional part "on the left with zeros
  to width \<open>-scale\<close>".\<close>

definition pad_left :: "nat \<Rightarrow> string \<Rightarrow> string" where
  "pad_left width str = replicate (width - length str) (CHR ''0'') @ str"

section \<open>The documented exponent range\<close>

text \<open>The largest exponent of the kernel that \<^verbatim>\<open>multiply_power10<Rep>\<close> and
  \<^verbatim>\<open>divide_power10<Rep>\<close> select: 9, 19 or 38.\<close>

definition max_exp10 :: "int_type \<Rightarrow> int" where
  "max_exp10 Rep = (if bits Rep \<le> 32 then 9 else if bits Rep \<le> 64 then 19 else 38)"

section \<open>Conversions and arithmetic in range\<close>

lemma cast_mod: "cast T v mod 2 ^ bits T = v mod 2 ^ bits T"
proof (cases T)
  case (Signed n)
  have "((v + 2 ^ (n - 1)) mod 2 ^ n - 2 ^ (n - 1)) mod 2 ^ n = (v + 2 ^ (n - 1) - 2 ^ (n - 1)) mod (2 ^ n :: int)"
    by (rule mod_diff_left_eq)
  then show ?thesis using Signed by simp
next
  case (Unsigned n)
  then show ?thesis by simp
qed

lemma cast_cong: "x mod 2 ^ bits T = y mod 2 ^ bits T \<Longrightarrow> cast T x = cast T y"
proof (cases T)
  case (Signed n)
  assume h: "x mod 2 ^ bits T = y mod 2 ^ bits T"
  have "(x + 2 ^ (n - 1)) mod 2 ^ n = (y + 2 ^ (n - 1)) mod (2 ^ n :: int)"
    using h Signed by (metis bits.simps(1) mod_add_left_eq)
  then show ?thesis using Signed by simp
next
  case (Unsigned n)
  assume "x mod 2 ^ bits T = y mod 2 ^ bits T"
  then show ?thesis using Unsigned by simp
qed

lemma mod_narrow: "n \<le> m \<Longrightarrow> x mod 2 ^ m = y mod 2 ^ m \<Longrightarrow> x mod 2 ^ n = y mod (2 ^ n :: int)"
  by (metis le_imp_power_dvd mod_mod_cancel)

lemma cast_cast: "bits T \<le> bits A \<Longrightarrow> cast T (cast A x) = cast T x"
  by (rule cast_cong) (rule mod_narrow [OF _ cast_mod])

lemma bits_arith_type: "bits T \<le> bits (arith_type T L)"
  by (cases T; cases L) (auto simp: arith_type_def)

lemma cast_mult_cast: "cast A (cast A x * cast A y) = cast A (x * y)"
  by (rule cast_cong) (metis cast_mod mod_mult_eq)

lemma mul_lit_eq: "mul_lit T v L lit = cast T (v * lit)"
  unfolding mul_lit_def Let_def
  by (simp add: cast_mult_cast cast_cast bits_arith_type)

lemma cast_id_signed: "0 < n \<Longrightarrow> in_range (Signed n) v \<Longrightarrow> cast (Signed n) v = v"
proof -
  assume n: "0 < n" and r: "in_range (Signed n) v"
  have p: "(2::int) ^ n = 2 * 2 ^ (n - 1)" using n by (cases n) simp_all
  have "0 \<le> v + 2 ^ (n - 1)" "v + 2 ^ (n - 1) < 2 ^ n"
    using r p by (simp_all add: in_range_def)
  then have "(v + 2 ^ (n - 1)) mod 2 ^ n = v + 2 ^ (n - 1)" by simp
  then show ?thesis by simp
qed

lemma cast_id_unsigned: "in_range (Unsigned n) v \<Longrightarrow> cast (Unsigned n) v = v"
  by (simp add: in_range_def)

lemma cast_id: "0 < bits T \<Longrightarrow> in_range T v \<Longrightarrow> cast T v = v"
  by (cases T) (simp_all add: cast_id_signed cast_id_unsigned del: cast.simps)

lemma in_range_cast: "0 < bits T \<Longrightarrow> in_range T (cast T v)"
proof (cases T)
  case (Signed n)
  assume "0 < bits T"
  then have n: "0 < n" using Signed by simp
  have p: "(2::int) ^ n = 2 * 2 ^ (n - 1)" using n by (cases n) simp_all
  have "0 \<le> (v + 2 ^ (n - 1)) mod (2 ^ n :: int)" "(v + 2 ^ (n - 1)) mod (2 ^ n :: int) < 2 ^ n"
    by simp_all
  then show ?thesis using Signed p by (simp add: in_range_def)
next
  case (Unsigned n)
  then show ?thesis by (simp add: in_range_def)
qed

lemma in_range_signed_mono: "n \<le> m \<Longrightarrow> in_range (Signed n) v \<Longrightarrow> in_range (Signed m) v"
proof -
  assume nm: "n \<le> m" and r: "in_range (Signed n) v"
  have "(2::int) ^ (n - 1) \<le> 2 ^ (m - 1)"
    using nm by (intro power_increasing) simp_all
  then show ?thesis using r unfolding in_range_def numeric_limits_min.simps numeric_limits_max.simps
    by linarith
qed

lemma sdiv_pos_bounds:
  "0 < (l::int) \<Longrightarrow> (0 \<le> v \<longrightarrow> 0 \<le> v sdiv l \<and> v sdiv l \<le> v) \<and> (v \<le> 0 \<longrightarrow> v \<le> v sdiv l \<and> v sdiv l \<le> 0)"
proof -
  assume l: "0 < l"
  have a: "\<bar>v\<bar> div l \<le> \<bar>v\<bar>" using l zdiv_mono2 [of "\<bar>v\<bar>" 1 l] by simp
  have b: "0 \<le> \<bar>v\<bar> div l" using l by (simp add: pos_imp_zdiv_nonneg_iff)
  show ?thesis using a b l by (auto simp: signed_divide_int_def sgn_if)
qed

lemma limits_sign: "numeric_limits_min T \<le> 0 \<and> 0 \<le> numeric_limits_max T"
  by (cases T) simp_all

lemma in_range_sdiv: "0 < l \<Longrightarrow> in_range T v \<Longrightarrow> in_range T (v sdiv l)"
  using sdiv_pos_bounds [of l v] limits_sign [of T] unfolding in_range_def
  by (cases "0 \<le> v") linarith+

lemma arith_type_signed: "32 \<le> n \<Longrightarrow> 32 \<le> m \<Longrightarrow> arith_type (Signed n) (Signed m) = Signed (max n m)"
  by (simp add: arith_type_def)

lemma div_lit_signed:
  assumes "32 \<le> n" "32 \<le> m" "in_range (Signed n) v" "in_range (Signed m) lit" "0 < lit"
  shows "div_lit (Signed n) v (Signed m) lit = v sdiv lit"
proof -
  let ?A = "Signed (max n m)"
  have A: "arith_type (Signed n) (Signed m) = ?A" using assms by (simp add: arith_type_signed)
  have v: "cast ?A v = v"
    using assms by (intro cast_id_signed in_range_signed_mono [of n "max n m"]) simp_all
  have l: "cast ?A lit = lit"
    using assms by (intro cast_id_signed in_range_signed_mono [of m "max n m"]) simp_all
  have q: "in_range (Signed n) (v sdiv lit)" using assms by (simp add: in_range_sdiv)
  have q1: "cast ?A (v sdiv lit) = v sdiv lit"
    using assms q by (intro cast_id_signed in_range_signed_mono [of n "max n m"]) simp_all
  have q2: "cast (Signed n) (v sdiv lit) = v sdiv lit"
    using assms q by (intro cast_id_signed) simp_all
  show ?thesis unfolding div_lit_def Let_def A v l q1 q2 ..
qed

lemma large_power_of_10_eq: "18 \<le> n \<Longrightarrow> n \<le> 38 \<Longrightarrow> large_power_of_10 n = 10 ^ n"
proof (induction n rule: large_power_of_10.induct)
  case (1 n)
  show ?case
  proof (cases "n \<le> 18")
    case True
    then have "n = 18" using 1 by simp
    then show ?thesis by (simp add: large_power_of_10.simps)
  next
    case False
    then have ih: "large_power_of_10 (n - 1) = 10 ^ (n - 1)" using 1 by simp
    have t: "cast int128_t 10 = 10" by simp
    have "(10::int) ^ n \<le> 10 ^ 38" using 1 by (intro power_increasing) simp_all
    moreover have "- 170141183460469231731687303715884105728 \<le> (10::int) ^ n"
      by (rule order_trans [of _ 0]) simp_all
    ultimately have "in_range int128_t (10 ^ n)" by (simp add: in_range_def)
    then have c: "cast int128_t (10 ^ n) = 10 ^ n" by (intro cast_id_signed) simp_all
    have "(10::int) ^ (n - 1) * 10 = 10 ^ n" using False by (cases n) simp_all
    then show ?thesis using False ih t c
      by (subst large_power_of_10.simps) (simp del: cast.simps)
  qed
qed

section \<open>The kernels inside their range\<close>

lemma exp_cases_38:
  "0 \<le> (e::int) \<Longrightarrow> e \<le> 38 \<Longrightarrow>
   e = 0 \<or> e = 1 \<or> e = 2 \<or> e = 3 \<or> e = 4 \<or> e = 5 \<or> e = 6 \<or> e = 7 \<or> e = 8 \<or> e = 9
   \<or> e = 10 \<or> e = 11 \<or> e = 12 \<or> e = 13 \<or> e = 14 \<or> e = 15 \<or> e = 16 \<or> e = 17 \<or> e = 18 \<or> e = 19
   \<or> e = 20 \<or> e = 21 \<or> e = 22 \<or> e = 23 \<or> e = 24 \<or> e = 25 \<or> e = 26 \<or> e = 27 \<or> e = 28 \<or> e = 29
   \<or> e = 30 \<or> e = 31 \<or> e = 32 \<or> e = 33 \<or> e = 34 \<or> e = 35 \<or> e = 36 \<or> e = 37 \<or> e = 38"
  by presburger

lemma large_powers:
  "large_power_of_10 19 = 10000000000000000000"
  "large_power_of_10 20 = 100000000000000000000"
  "large_power_of_10 21 = 1000000000000000000000"
  "large_power_of_10 22 = 10000000000000000000000"
  "large_power_of_10 23 = 100000000000000000000000"
  "large_power_of_10 24 = 1000000000000000000000000"
  "large_power_of_10 25 = 10000000000000000000000000"
  "large_power_of_10 26 = 100000000000000000000000000"
  "large_power_of_10 27 = 1000000000000000000000000000"
  "large_power_of_10 28 = 10000000000000000000000000000"
  "large_power_of_10 29 = 100000000000000000000000000000"
  "large_power_of_10 30 = 1000000000000000000000000000000"
  "large_power_of_10 31 = 10000000000000000000000000000000"
  "large_power_of_10 32 = 100000000000000000000000000000000"
  "large_power_of_10 33 = 1000000000000000000000000000000000"
  "large_power_of_10 34 = 10000000000000000000000000000000000"
  "large_power_of_10 35 = 100000000000000000000000000000000000"
  "large_power_of_10 36 = 1000000000000000000000000000000000000"
  "large_power_of_10 37 = 10000000000000000000000000000000000000"
  "large_power_of_10 38 = 100000000000000000000000000000000000000"
  by (simp_all add: large_power_of_10_eq)

lemma multiply_power10_32bit_eq:
  assumes "0 \<le> e" "e \<le> 9" "cast T v = v"
  shows "multiply_power10_32bit T v e = cast T (v * 10 ^ nat e)"
proof -
  from assms have "e = 0 \<or> e = 1 \<or> e = 2 \<or> e = 3 \<or> e = 4 \<or> e = 5 \<or> e = 6 \<or> e = 7 \<or> e = 8 \<or> e = 9"
    by presburger
  then show ?thesis using assms(3)
    by (elim disjE) (simp_all add: multiply_power10_32bit_def mul_lit_eq del: cast.simps)
qed

lemma multiply_power10_64bit_eq:
  assumes "0 \<le> e" "e \<le> 19" "cast T v = v"
  shows "multiply_power10_64bit T v e = cast T (v * 10 ^ nat e)"
proof -
  from assms have "e = 0 \<or> e = 1 \<or> e = 2 \<or> e = 3 \<or> e = 4 \<or> e = 5 \<or> e = 6 \<or> e = 7 \<or> e = 8 \<or> e = 9
   \<or> e = 10 \<or> e = 11 \<or> e = 12 \<or> e = 13 \<or> e = 14 \<or> e = 15 \<or> e = 16 \<or> e = 17 \<or> e = 18 \<or> e = 19"
    by presburger
  then show ?thesis using assms(3)
    by (elim disjE) (simp_all add: multiply_power10_64bit_def mul_lit_eq del: cast.simps)
qed

lemma multiply_power10_128bit_eq:
  assumes "0 \<le> e" "e \<le> 38" "cast T v = v"
  shows "multiply_power10_128bit T v e = cast T (v * 10 ^ nat e)"
  using exp_cases_38 [OF assms(1,2)] assms(3)
  by (elim disjE) (simp_all add: multiply_power10_128bit_def mul_lit_eq large_powers del: cast.simps)

lemma divide_power10_32bit_eq:
  assumes "0 \<le> e" "e \<le> 9" "32 \<le> n" "in_range (Signed n) v"
  shows "divide_power10_32bit (Signed n) v e = v sdiv 10 ^ nat e"
proof -
  from assms have "e = 0 \<or> e = 1 \<or> e = 2 \<or> e = 3 \<or> e = 4 \<or> e = 5 \<or> e = 6 \<or> e = 7 \<or> e = 8 \<or> e = 9"
    by presburger
  then show ?thesis using assms(3,4)
    by (elim disjE) (simp_all add: divide_power10_32bit_def div_lit_signed in_range_def [of c_int])
qed

lemma divide_power10_64bit_eq:
  assumes "0 \<le> e" "e \<le> 18" "32 \<le> n" "in_range (Signed n) v"
  shows "divide_power10_64bit (Signed n) v e = v sdiv 10 ^ nat e"
proof -
  from assms have "e = 0 \<or> e = 1 \<or> e = 2 \<or> e = 3 \<or> e = 4 \<or> e = 5 \<or> e = 6 \<or> e = 7 \<or> e = 8 \<or> e = 9
   \<or> e = 10 \<or> e = 11 \<or> e = 12 \<or> e = 13 \<or> e = 14 \<or> e = 15 \<or> e = 16 \<or> e = 17 \<or> e = 18"
    by presburger
  then show ?thesis using assms(3,4)
    by (elim disjE) (simp_all add: divide_power10_64bit_def div_lit_signed
          in_range_def [of c_int]  in_range_def [of c_long_long])
qed

lemma divide_power10_128bit_eq:
  assumes "0 \<le> e" "e \<le> 38" "32 \<le> n" "in_range (Signed n) v"
  shows "divide_power10_128bit (Signed n) v e = v sdiv 10 ^ nat e"
  using exp_cases_38 [OF assms(1,2)] assms(3,4)
  by (elim disjE) (simp_all add: divide_power10_128bit_def div_lit_signed large_powers
          in_range_def [of c_int] in_range_def [of c_long_long] in_range_def [of int128_t])

text \<open>The arm for \<open>10^19\<close> of the 64-bit kernel divides by an unsigned literal.\<close>

lemma sdiv_nonneg: "0 \<le> (a::int) \<Longrightarrow> 0 < b \<Longrightarrow> a sdiv b = a div b"
  by (simp add: signed_divide_int_def sgn_if)

lemma divide_power10_64bit_19:
  assumes "32 \<le> n" "n \<le> 64" "in_range (Signed n) v"
  shows "divide_power10_64bit (Signed n) v 19 =
           (if - 8446744073709551616 \<le> v \<and> v < 0 then 1 else 0)"
proof -
  have A: "arith_type (Signed n) c_unsigned_long_long = c_unsigned_long_long"
    using assms by (simp add: arith_type_def)
  have r: "in_range int64_t v" using assms by (intro in_range_signed_mono [of n 64]) simp_all
  then have b: "- 9223372036854775808 \<le> v" "v \<le> 9223372036854775807"
    by (simp_all add: in_range_def)
  have one: "cast (Signed n) 1 = 1" "cast (Signed n) 0 = 0"
    using assms by (simp_all add: cast_id_signed in_range_def del: cast.simps)
  define x where "x = v mod 18446744073709551616"
  have x: "x = (if v < 0 then v + 18446744073709551616 else v)"
  proof (cases "v < 0")
    case False
    then show ?thesis using b by (simp add: x_def)
  next
    case True
    have "(v + 18446744073709551616) mod 18446744073709551616 = v + 18446744073709551616"
      using True b by (intro mod_pos_pos_trivial) simp_all
    then show ?thesis using True by (simp add: x_def)
  qed
  have x0: "0 \<le> x" using x b by (simp split: if_splits)
  have q: "x sdiv 10000000000000000000 = (if - 8446744073709551616 \<le> v \<and> v < 0 then 1 else 0)"
  proof (cases "- 8446744073709551616 \<le> v \<and> v < 0")
    case True
    have "0 \<le> x - 10000000000000000000" "x - 10000000000000000000 < 10000000000000000000"
      using True x by simp_all
    then have "(x - 10000000000000000000) div 10000000000000000000 = 0"
      by (intro div_pos_pos_trivial)
    moreover have "x div 10000000000000000000
        = (x - 10000000000000000000 + 10000000000000000000) div 10000000000000000000" by simp
    ultimately have "x div 10000000000000000000 = 1"
      by (simp only: div_add_self2)
    then show ?thesis using True x0 by (simp add: sdiv_nonneg)
  next
    case False
    then have "x < 10000000000000000000" using x b by (simp split: if_splits)
    then have "x div 10000000000000000000 = 0" using x0 by (intro div_pos_pos_trivial)
    then show ?thesis using False x0 by (simp add: sdiv_nonneg)
  qed
  have "divide_power10_64bit (Signed n) v 19
        = cast (Signed n) (cast c_unsigned_long_long (x sdiv 10000000000000000000))"
    by (simp add: divide_power10_64bit_def div_lit_def A x_def del: cast.simps(1))
  also have "\<dots> = (if - 8446744073709551616 \<le> v \<and> v < 0 then 1 else 0)"
    unfolding q using one by (simp del: cast.simps(1))
  finally show ?thesis .
qed

section \<open>The kernels outside their range\<close>

lemma multiply_power10_out_of_range:
  "e < 0 \<or> max_exp10 Rep < e \<Longrightarrow> multiply_power10 Rep T v e = 0"
  unfolding multiply_power10_def max_exp10_def
  by (cases "bits Rep \<le> 32"; cases "bits Rep \<le> 64")
     (auto simp: multiply_power10_32bit_def multiply_power10_64bit_def multiply_power10_128bit_def)

lemma divide_power10_out_of_range:
  "e < 0 \<or> max_exp10 Rep < e \<Longrightarrow> divide_power10 Rep T v e = 0"
  unfolding divide_power10_def max_exp10_def
  by (cases "bits Rep \<le> 32"; cases "bits Rep \<le> 64")
     (auto simp: divide_power10_32bit_def divide_power10_64bit_def divide_power10_128bit_def)

section \<open>Evaluation on concrete inputs\<close>

lemma replicate_numeral_unfold: "replicate (numeral k) x = x # replicate (numeral k - 1) x"
  by (simp add: numeral_eq_Suc)

lemmas string_eval = detail_to_string_def dec_digits.simps replicate_numeral_unfold

lemmas to_string_unfold = to_string_def detail_abs_def detail_exp10_def Let_def

lemmas shifted_unfold = fixed_point_shifted_def shift_def left_shift_def right_shift_def
  multiply_power10_def divide_power10_def

section \<open>Shifting by a scale outside the kernel range\<close>

lemma cast_zero: "0 < bits T \<Longrightarrow> cast T 0 = 0"
  using limits_sign [of T] by (intro cast_id) (simp_all add: in_range_def)

lemma max_exp10_ge: "9 \<le> max_exp10 Rep"
  by (simp add: max_exp10_def)

lemma int32_bounds: "in_range scale_type s \<longleftrightarrow> - 2147483648 \<le> s \<and> s \<le> 2147483647"
  by (simp add: in_range_def)

lemma cast_int32_id: "- 2147483648 \<le> s \<Longrightarrow> s \<le> 2147483647 \<Longrightarrow> cast int32_t s = s"
  by (intro cast_id_signed) (simp_all add: in_range_def)

lemma shift_out_of_range:
  assumes "in_range scale_type s" "max_exp10 Rep < \<bar>s\<bar>"
  shows "shift Rep BASE_10 T v (cast scale_type (- s)) = 0"
proof -
  have b: "- 2147483648 \<le> s" "s \<le> 2147483647" using assms(1) by (simp_all add: int32_bounds)
  have m: "9 \<le> max_exp10 Rep" by (rule max_exp10_ge)
  consider "0 < s" | "s < 0" "s \<noteq> - 2147483648" | "s = - 2147483648"
    using assms(2) m by linarith
  then show ?thesis
  proof cases
    case 1
    then have c: "cast scale_type (- s) = - s" using b by (intro cast_int32_id) simp_all
    have c2: "cast int32_t s = s" using b by (intro cast_int32_id)
    have "max_exp10 Rep < s" using 1 assms(2) by simp
    then have "multiply_power10 Rep T v s = 0" by (intro multiply_power10_out_of_range) simp
    then show ?thesis using 1 c c2
      by (simp add: shift_def left_shift_def del: cast.simps)
  next
    case 2
    then have c: "cast scale_type (- s) = - s" using b by (intro cast_int32_id) simp_all
    have "max_exp10 Rep < - s" using 2 assms(2) by simp
    then have "divide_power10 Rep T v (- s) = 0" by (intro divide_power10_out_of_range) simp
    then show ?thesis using 2 c
      by (simp add: shift_def right_shift_def del: cast.simps)
  next
    case 3
    have "multiply_power10 Rep T v (- 2147483648) = 0"
      by (intro multiply_power10_out_of_range) simp
    then show ?thesis using 3
      by (simp add: shift_def left_shift_def)
  qed
qed

section \<open>The overflow predicates against unbounded arithmetic\<close>

lemma div_mod_decomp: "(n::int) = (n div k) * k + n mod k"
  by simp

lemma div_less_iff: 
  assumes "0 < (k::int)" shows "n div k < m \<longleftrightarrow> n < m * k"
proof
  assume "n div k < m"
  then have "n div k + 1 \<le> m" by simp
  then have "(n div k + 1) * k \<le> m * k" using assms by (intro mult_right_mono) simp_all
  then have a: "(n div k) * k + k \<le> m * k" by (simp add: algebra_simps)
  have "n mod k < k" using assms by simp
  then show "n < m * k" using a div_mod_decomp [of n k] by linarith
next
  assume a: "n < m * k"
  show "n div k < m"
  proof (rule ccontr)
    assume "\<not> n div k < m"
    then have "m \<le> n div k" by simp
    then have b: "m * k \<le> (n div k) * k" using assms by (intro mult_right_mono) simp_all
    have "0 \<le> n mod k" using assms by simp
    then show False using a b div_mod_decomp [of n k] by linarith
  qed
qed

lemma sdiv_neg_pos: "(a::int) \<le> 0 \<Longrightarrow> 0 < b \<Longrightarrow> a sdiv b = - ((- a) div b)"
  by (auto simp: signed_divide_int_def sgn_if)

lemma sdiv_pos_neg: "0 \<le> (a::int) \<Longrightarrow> b < 0 \<Longrightarrow> a sdiv b = - (a div (- b))"
  by (auto simp: signed_divide_int_def sgn_if)

lemma sdiv_neg_neg: "(a::int) \<le> 0 \<Longrightarrow> b < 0 \<Longrightarrow> a sdiv b = (- a) div (- b)"
  by (auto simp: signed_divide_int_def sgn_if)

lemma arith_type_same: "32 \<le> n \<Longrightarrow> arith_type (Signed n) (Signed n) = Signed n"
  by (simp add: arith_type_def)

lemma arith_type_c_int: "32 \<le> n \<Longrightarrow> arith_type (Signed n) c_int = Signed n"
  by (simp add: arith_type_def max_def)

lemma in_range_signed: "in_range (Signed n) v \<longleftrightarrow> - (2 ^ (n - 1)) \<le> v \<and> v \<le> 2 ^ (n - 1) - 1"
  by (simp add: in_range_def)

lemma in_range_small: "32 \<le> n \<Longrightarrow> - 2147483648 \<le> v \<Longrightarrow> v \<le> 2147483647 \<Longrightarrow> in_range (Signed n) v"
  by (rule in_range_signed_mono [of 32 n]) (simp_all add: in_range_def)

lemma addition_overflow_signed:
  assumes n: "32 \<le> n" and l: "in_range (Signed n) lhs" and r: "in_range (Signed n) rhs"
  shows "addition_overflow (Signed n) (Signed n) lhs rhs \<longleftrightarrow> \<not> in_range (Signed n) (lhs + rhs)"
proof -
  let ?R = "Signed n"
  have n0: "0 < n" using n by simp
  have cl: "cast ?R lhs = lhs" and cr: "cast ?R rhs = rhs"
    using l r n0 by (simp_all add: cast_id_signed del: cast.simps)
  have c0: "cast ?R 0 = 0" using n0 by (intro cast_id_signed in_range_small n) simp_all
  have cmax: "cast ?R (numeric_limits_max ?R) = numeric_limits_max ?R"
    and cmin: "cast ?R (numeric_limits_min ?R) = numeric_limits_min ?R"
    using n0 by (simp_all add: cast_id_signed in_range_signed del: cast.simps)
  show ?thesis
  proof (cases "0 < rhs")
    case True
    have "in_range ?R (numeric_limits_max ?R - rhs)" using True r by (simp add: in_range_signed)
    then have "cast ?R (numeric_limits_max ?R - rhs) = numeric_limits_max ?R - rhs"
      using n0 by (simp add: cast_id_signed del: cast.simps)
    then show ?thesis using True l r cl cr c0 cmax
      by (simp add: addition_overflow_def arith_type_same arith_type_c_int n Let_def
            in_range_signed del: cast.simps) linarith
  next
    case False
    have "in_range ?R (numeric_limits_min ?R - rhs)" using False r by (simp add: in_range_signed)
    then have "cast ?R (numeric_limits_min ?R - rhs) = numeric_limits_min ?R - rhs"
      using n0 by (simp add: cast_id_signed del: cast.simps)
    then show ?thesis using False l r cl cr c0 cmin
      by (simp add: addition_overflow_def arith_type_same arith_type_c_int n Let_def
            in_range_signed del: cast.simps) linarith
  qed
qed


lemma subtraction_overflow_signed:
  assumes n: "32 \<le> n" and l: "in_range (Signed n) lhs" and r: "in_range (Signed n) rhs"
  shows "subtraction_overflow (Signed n) (Signed n) lhs rhs \<longleftrightarrow> \<not> in_range (Signed n) (lhs - rhs)"
proof -
  let ?R = "Signed n"
  have n0: "0 < n" using n by simp
  have cl: "cast ?R lhs = lhs" and cr: "cast ?R rhs = rhs"
    using l r n0 by (simp_all add: cast_id_signed del: cast.simps)
  have c0: "cast ?R 0 = 0" using n0 by (intro cast_id_signed in_range_small n) simp_all
  have cmax: "cast ?R (numeric_limits_max ?R) = numeric_limits_max ?R"
    and cmin: "cast ?R (numeric_limits_min ?R) = numeric_limits_min ?R"
    using n0 by (simp_all add: cast_id_signed in_range_signed del: cast.simps)
  show ?thesis
  proof (cases "0 < rhs")
    case True
    have "in_range ?R (numeric_limits_min ?R + rhs)" using True r by (simp add: in_range_signed)
    then have "cast ?R (numeric_limits_min ?R + rhs) = numeric_limits_min ?R + rhs"
      using n0 by (simp add: cast_id_signed del: cast.simps)
    then show ?thesis using True l r cl cr c0 cmin
      by (simp add: subtraction_overflow_def arith_type_same arith_type_c_int n Let_def
            in_range_signed del: cast.simps) linarith
  next
    case False
    have "in_range ?R (numeric_limits_max ?R + rhs)" using False r by (simp add: in_range_signed)
    then have "cast ?R (numeric_limits_max ?R + rhs) = numeric_limits_max ?R + rhs"
      using n0 by (simp add: cast_id_signed del: cast.simps)
    then show ?thesis using False l r cl cr c0 cmax
      by (simp add: subtraction_overflow_def arith_type_same arith_type_c_int n Let_def
            in_range_signed del: cast.simps) linarith
  qed
qed

lemma mult_overflow_int:
  fixes M l r :: int
  assumes M: "0 < M" and l: "- M \<le> l" "l \<le> M - 1" and r: "- M \<le> r" "r \<le> M - 1"
  shows "(if 0 < r then l > (M - 1) sdiv r \<or> l < (- M) sdiv r
          else if r < - 1 then l > (- M) sdiv r \<or> l < (M - 1) sdiv r
          else r = - 1 \<and> l = - M)
         \<longleftrightarrow> \<not> (- M \<le> l * r \<and> l * r \<le> M - 1)"
proof -
  consider "0 < r" | "r < - 1" | "r = - 1" | "r = 0" by linarith
  then show ?thesis
  proof cases
    case 1
    have a: "(M - 1) sdiv r = (M - 1) div r" using 1 M by (intro sdiv_nonneg) simp_all
    have b: "(- M) sdiv r = - (M div r)" using 1 M sdiv_neg_pos [of "- M" r] by simp
    have c: "(M - 1) div r < l \<longleftrightarrow> M - 1 < l * r" using 1 by (rule div_less_iff)
    have "M div r < - l \<longleftrightarrow> M < (- l) * r" using 1 by (rule div_less_iff)
    then have d: "l < - (M div r) \<longleftrightarrow> l * r < - M" by (simp add: algebra_simps) linarith
    show ?thesis using 1 c d unfolding a b by auto
  next
    case 2
    then have p: "0 < - r" by simp
    have a: "(- M) sdiv r = M div (- r)" using 2 M sdiv_neg_neg [of "- M" r] by simp
    have b: "(M - 1) sdiv r = - ((M - 1) div (- r))" using 2 M by (intro sdiv_pos_neg) simp_all
    have "M div (- r) < l \<longleftrightarrow> M < l * (- r)" using p by (rule div_less_iff)
    then have c: "M div (- r) < l \<longleftrightarrow> l * r < - M" by (simp add: algebra_simps) linarith
    have "(M - 1) div (- r) < - l \<longleftrightarrow> M - 1 < (- l) * (- r)" using p by (rule div_less_iff)
    then have d: "l < - ((M - 1) div (- r)) \<longleftrightarrow> M - 1 < l * r" by simp linarith
    show ?thesis using 2 c d unfolding a b by auto
  next
    case 3
    then show ?thesis using l by auto
  next
    case 4
    then show ?thesis using M by simp
  qed
qed


lemma pow_half_pos: "0 < (2::int) ^ (n - 1)"
  by simp

lemma in_range_quotients:
  fixes M r :: int
  assumes M: "0 < M" and r: "- M \<le> r" "r \<le> M - 1" "r \<noteq> 0" "r \<noteq> - 1"
  shows "- M \<le> (M - 1) sdiv r \<and> (M - 1) sdiv r \<le> M - 1 \<and> - M \<le> (- M) sdiv r \<and> (- M) sdiv r \<le> M - 1"
proof (cases "0 < r")
  case True
  show ?thesis
    using sdiv_pos_bounds [OF True, of "M - 1"] sdiv_pos_bounds [OF True, of "- M"] M by auto
next
  case False
  then have r2: "r < - 1" using r by linarith
  have a: "(- M) sdiv r = M div (- r)" using r2 M sdiv_neg_neg [of "- M" r] by simp
  have b: "(M - 1) sdiv r = - ((M - 1) div (- r))" using r2 M by (intro sdiv_pos_neg) simp_all
  have "M div (- r) < M" using M r2 by (intro int_div_less_self) simp_all
  moreover have "0 \<le> M div (- r)" using M r2 by (simp add: pos_imp_zdiv_nonneg_iff)
  moreover have "0 \<le> (M - 1) div (- r)" using M r2 by (simp add: pos_imp_zdiv_nonneg_iff)
  moreover have "(M - 1) div (- r) \<le> M - 1"
    using zdiv_mono2 [of "M - 1" 1 "- r"] M r2 by simp
  ultimately show ?thesis unfolding a b by linarith
qed

lemma multiplication_overflow_signed:
  assumes n: "32 \<le> n" and l: "in_range (Signed n) lhs" and r: "in_range (Signed n) rhs"
  shows "multiplication_overflow (Signed n) (Signed n) lhs rhs \<longleftrightarrow> \<not> in_range (Signed n) (lhs * rhs)"
proof -
  let ?R = "Signed n"
  define M :: int where "M = 2 ^ (n - 1)"
  have M: "0 < M" by (simp add: M_def)
  have n0: "0 < n" using n by simp
  have ir: "\<And>v. in_range ?R v \<longleftrightarrow> - M \<le> v \<and> v \<le> M - 1"
    by (simp add: in_range_signed M_def)
  have cid: "\<And>v. - M \<le> v \<Longrightarrow> v \<le> M - 1 \<Longrightarrow> cast ?R v = v"
    using n0 by (intro cast_id_signed) (simp_all add: ir)
  have lb: "- M \<le> lhs" "lhs \<le> M - 1" and rb: "- M \<le> rhs" "rhs \<le> M - 1"
    using l r by (simp_all add: ir)
  have cl: "cast ?R lhs = lhs" and cr: "cast ?R rhs = rhs" using lb rb by (simp_all add: cid del: cast.simps)
  have c0: "cast ?R 0 = 0" and c1: "cast ?R (- 1) = - 1" using M by (simp_all add: cid del: cast.simps)
  have cmax: "cast ?R (M - 1) = M - 1" and cmin: "cast ?R (- M) = - M" using M by (simp_all add: cid del: cast.simps)
  have lim: "numeric_limits_max ?R = M - 1" "numeric_limits_min ?R = - M" by (simp_all add: M_def)
  have q: "rhs \<noteq> 0 \<Longrightarrow> rhs \<noteq> - 1 \<Longrightarrow>
      cast ?R ((M - 1) sdiv rhs) = (M - 1) sdiv rhs \<and> cast ?R ((- M) sdiv rhs) = (- M) sdiv rhs"
    using in_range_quotients [OF M rb] by (simp add: cid del: cast.simps)
  have model: "multiplication_overflow ?R ?R lhs rhs \<longleftrightarrow>
        (if 0 < rhs then lhs > (M - 1) sdiv rhs \<or> lhs < (- M) sdiv rhs
         else if rhs < - 1 then lhs > (- M) sdiv rhs \<or> lhs < (M - 1) sdiv rhs
         else rhs = - 1 \<and> lhs = - M)"
    unfolding multiplication_overflow_def Let_def arith_type_same [OF n] arith_type_c_int [OF n]
      lim cl cr c0 c1 cmax cmin
    using q by auto
  show ?thesis unfolding model ir by (rule mult_overflow_int [OF M lb rb])
qed

lemma division_overflow_signed:
  assumes n: "32 \<le> n" and l: "in_range (Signed n) lhs" and r: "in_range (Signed n) rhs"
    and nz: "rhs \<noteq> 0"
  shows "division_overflow (Signed n) (Signed n) lhs rhs \<longleftrightarrow> \<not> in_range (Signed n) (lhs sdiv rhs)"
    and "division_overflow (Signed n) (Signed n) lhs rhs
          \<longleftrightarrow> lhs = numeric_limits_min (Signed n) \<and> rhs = - 1"
proof -
  let ?R = "Signed n"
  define M :: int where "M = 2 ^ (n - 1)"
  have M: "0 < M" by (simp add: M_def)
  have n0: "0 < n" using n by simp
  have ir: "\<And>v. in_range ?R v \<longleftrightarrow> - M \<le> v \<and> v \<le> M - 1"
    by (simp add: in_range_signed M_def)
  have cid: "\<And>v. - M \<le> v \<Longrightarrow> v \<le> M - 1 \<Longrightarrow> cast ?R v = v"
    using n0 by (intro cast_id_signed) (simp_all add: ir)
  have lb: "- M \<le> lhs" "lhs \<le> M - 1" and rb: "- M \<le> rhs" "rhs \<le> M - 1"
    using l r by (simp_all add: ir)
  have cl: "cast ?R lhs = lhs" and cr: "cast ?R rhs = rhs" using lb rb by (simp_all add: cid del: cast.simps)
  have c1: "cast ?R (- 1) = - 1" using M by (simp add: cid del: cast.simps)
  have cmin: "cast ?R (- M) = - M" using M by (simp add: cid del: cast.simps)
  have lim: "numeric_limits_min ?R = - M" by (simp add: M_def)
  show model: "division_overflow ?R ?R lhs rhs \<longleftrightarrow> lhs = numeric_limits_min ?R \<and> rhs = - 1"
    unfolding division_overflow_def Let_def arith_type_same [OF n] arith_type_c_int [OF n]
      lim cl cr c1 cmin ..
  have "(lhs = - M \<and> rhs = - 1) \<longleftrightarrow> \<not> (- M \<le> lhs sdiv rhs \<and> lhs sdiv rhs \<le> M - 1)"
  proof (cases "rhs = - 1")
    case True
    then show ?thesis using lb by auto
  next
    case False
    have "- M \<le> lhs sdiv rhs \<and> lhs sdiv rhs \<le> M - 1"
    proof (cases "0 < rhs")
      case True
      then show ?thesis using sdiv_pos_bounds [OF True, of lhs] lb by (cases "0 \<le> lhs") auto
    next
      case f: False
      then have r2: "rhs < - 1" using False nz by linarith
      show ?thesis
      proof (cases "0 < lhs")
        case True
        have "lhs sdiv rhs = - (lhs div (- rhs))" using True r2 by (intro sdiv_pos_neg) simp_all
        moreover have "0 \<le> lhs div (- rhs)" using True r2 by (simp add: pos_imp_zdiv_nonneg_iff)
        moreover have "lhs div (- rhs) \<le> lhs" using zdiv_mono2 [of lhs 1 "- rhs"] True r2 by simp
        ultimately show ?thesis using lb M by linarith
      next
        case False
        show ?thesis
        proof (cases "lhs = 0")
          case True
          then show ?thesis using M by simp
        next
          case l0: False
          then have neg: "0 < - lhs" using False by simp
          have "lhs sdiv rhs = (- lhs) div (- rhs)" using neg r2 by (intro sdiv_neg_neg) simp_all
          moreover have "(- lhs) div (- rhs) < - lhs" using neg r2 by (intro int_div_less_self) simp_all
          moreover have "0 \<le> (- lhs) div (- rhs)" using neg r2 by (simp add: neg_imp_zdiv_nonneg_iff)
          ultimately show ?thesis using lb by linarith
        qed
      qed
    qed
    then show ?thesis using False by simp
  qed
  then show "division_overflow ?R ?R lhs rhs \<longleftrightarrow> \<not> in_range ?R (lhs sdiv rhs)"
    unfolding model lim ir .
qed

section \<open>The kernels at a supported representation type\<close>

lemma supported_signed:
  "is_supported_representation_type R \<Longrightarrow> \<exists>n. R = Signed n \<and> 32 \<le> n \<and> (n = 32 \<or> n = 64 \<or> n = 128)"
  by (auto simp: is_supported_representation_type_def)

lemma supported_bits: "is_supported_representation_type R \<Longrightarrow> 0 < bits R"
  by (auto simp: is_supported_representation_type_def)

lemma cast_id_supported:
  "is_supported_representation_type R \<Longrightarrow> in_range R v \<Longrightarrow> cast R v = v"
  by (intro cast_id supported_bits)

lemma sdiv_small: "0 \<le> (v::int) \<Longrightarrow> v < l \<Longrightarrow> v sdiv l = 0"
  by (simp add: sdiv_nonneg)

lemma divide_power10_supported:
  assumes R: "is_supported_representation_type R" and v: "in_range R v"
    and e: "0 \<le> e" "e \<le> max_exp10 R"
    and nn: "R = int64_t \<and> e = 19 \<longrightarrow> 0 \<le> v"
  shows "divide_power10 R R v e = v sdiv 10 ^ nat e"
proof -
  consider "R = int32_t" | "R = int64_t" | "R = int128_t"
    using R by (auto simp: is_supported_representation_type_def)
  then show ?thesis
  proof cases
    case 1
    then show ?thesis using v e divide_power10_32bit_eq [of e 32 v]
      by (simp add: divide_power10_def max_exp10_def)
  next
    case 2
    show ?thesis
    proof (cases "e = 19")
      case True
      then have v0: "0 \<le> v" using nn 2 by simp
      have "v \<le> 9223372036854775807" using v 2 by (simp add: in_range_def)
      then have "v sdiv 10 ^ nat 19 = 0" using v0 by (intro sdiv_small) simp_all
      moreover have "divide_power10_64bit int64_t v 19 = 0"
        using divide_power10_64bit_19 [of 64 v] v 2 v0 by simp
      ultimately show ?thesis using 2 True by (simp add: divide_power10_def)
    next
      case False
      then have "e \<le> 18" using e 2 by (simp add: max_exp10_def)
      then show ?thesis using 2 v e divide_power10_64bit_eq [of e 64 v]
        by (simp add: divide_power10_def)
    qed
  next
    case 3
    then show ?thesis using v e divide_power10_128bit_eq [of e 128 v]
      by (simp add: divide_power10_def max_exp10_def)
  qed
qed

lemma multiply_power10_supported:
  assumes R: "is_supported_representation_type R" and v: "in_range R v"
    and e: "0 \<le> e" "e \<le> max_exp10 R"
  shows "multiply_power10 R R v e = cast R (v * 10 ^ nat e)"
proof -
  have c: "cast R v = v" using R v by (rule cast_id_supported)
  consider "R = int32_t" | "R = int64_t" | "R = int128_t"
    using R by (auto simp: is_supported_representation_type_def)
  then show ?thesis
  proof cases
    case 1
    then show ?thesis using c e multiply_power10_32bit_eq [of e R v]
      by (simp add: multiply_power10_def max_exp10_def del: cast.simps)
  next
    case 2
    then show ?thesis using c e multiply_power10_64bit_eq [of e R v]
      by (simp add: multiply_power10_def max_exp10_def del: cast.simps)
  next
    case 3
    then show ?thesis using c e multiply_power10_128bit_eq [of e R v]
      by (simp add: multiply_power10_def max_exp10_def del: cast.simps)
  qed
qed

lemma divide_power10_small:
  assumes R: "is_supported_representation_type R" and v: "in_range R v" "0 \<le> v"
    and s: "0 \<le> e" "v < 10 ^ nat e"
  shows "divide_power10 R R v e = 0"
proof (cases "e \<le> max_exp10 R")
  case True
  have "divide_power10 R R v e = v sdiv 10 ^ nat e"
    using R v(1) s(1) True v(2) by (intro divide_power10_supported) simp_all
  then show ?thesis using v(2) s(2) by (simp add: sdiv_small)
next
  case False
  then show ?thesis by (intro divide_power10_out_of_range) simp
qed

lemma rescaled_same: "rescaled R B x (m_scale x) = x"
  by (simp add: rescaled_def)

section \<open>Addition without overflow, and the constructor at the value one\<close>

lemma pow10_fits:
  assumes R: "is_supported_representation_type R" and b: "10 ^ k \<le> - numeric_limits_min R"
  shows "int k \<le> max_exp10 R \<and> \<not> (R = int64_t \<and> k = 19)"
proof -
  consider "R = int32_t" | "R = int64_t" | "R = int128_t"
    using R by (auto simp: is_supported_representation_type_def)
  then show ?thesis
  proof cases
    case 1
    have "k < 10"
    proof (rule ccontr)
      assume "\<not> k < 10"
      then have "(10::int) ^ 10 \<le> 10 ^ k" by (intro power_increasing) simp_all
      then show False using b 1 by simp
    qed
    then show ?thesis using 1 by (simp add: max_exp10_def)
  next
    case 2
    have "k < 19"
    proof (rule ccontr)
      assume "\<not> k < 19"
      then have "(10::int) ^ 19 \<le> 10 ^ k" by (intro power_increasing) simp_all
      then show False using b 2 by simp
    qed
    then show ?thesis using 2 by (simp add: max_exp10_def)
  next
    case 3
    have "k < 39"
    proof (rule ccontr)
      assume "\<not> k < 39"
      then have "(10::int) ^ 39 \<le> 10 ^ k" by (intro power_increasing) simp_all
      then show False using b 3 by simp
    qed
    then show ?thesis using 3 by (simp add: max_exp10_def)
  qed
qed

lemma operator_plus_exact:
  assumes R: "is_supported_representation_type R"
    and s: "s = min (m_scale lhs) (m_scale rhs)"
    and l: "in_range R (m_value (rescaled R B lhs s))"
    and r: "in_range R (m_value (rescaled R B rhs s))"
    and sum: "in_range R (m_value (rescaled R B lhs s) + m_value (rescaled R B rhs s))"
  shows "operator_plus dbg R B lhs rhs
          = Some \<lparr>m_value = m_value (rescaled R B lhs s) + m_value (rescaled R B rhs s),
                  m_scale = s\<rparr>"
proof -
  obtain n where n: "R = Signed n" "32 \<le> n" using supported_signed [OF R] by blast
  have "\<not> addition_overflow R R (m_value (rescaled R B lhs s)) (m_value (rescaled R B rhs s))"
    using addition_overflow_signed [of n] l r sum n by simp
  moreover have "cast R (m_value (rescaled R B lhs s) + m_value (rescaled R B rhs s))
      = m_value (rescaled R B lhs s) + m_value (rescaled R B rhs s)"
    using R sum by (rule cast_id_supported)
  ultimately show ?thesis unfolding operator_plus_def Let_def s [symmetric] by simp
qed

lemma shifted_one_positive_scale:
  assumes R: "is_supported_representation_type R" and s: "1 \<le> s" "in_range scale_type s"
  shows "fixed_point_shifted R BASE_10 1 s = \<lparr>m_value = 0, m_scale = s\<rparr>"
proof -
  have one: "in_range R 1" using R by (auto simp: is_supported_representation_type_def in_range_def)
  then have c1: "cast R 1 = 1" using R by (intro cast_id_supported)
  have cs: "cast int32_t s = s" using s(2) by (intro cast_int32_id) (simp_all add: int32_bounds)
  have "(1::int) < 10 ^ nat s" using s(1) by (intro one_less_power) simp_all
  then have "divide_power10 R R 1 s = 0" using R one s(1) by (intro divide_power10_small) simp_all
  then show ?thesis using s(1) c1 cs
    by (simp add: fixed_point_shifted_def shift_def right_shift_def del: cast.simps)
qed

lemma shifted_one_nonpositive_scale:
  assumes R: "is_supported_representation_type R" and s: "s \<le> 0"
    and fit: "in_range R (10 ^ nat (- s))"
  shows "fixed_point_shifted R BASE_10 1 s = \<lparr>m_value = 10 ^ nat (- s), m_scale = s\<rparr>"
proof -
  have one: "in_range R 1" using R by (auto simp: is_supported_representation_type_def in_range_def)
  then have c1: "cast R 1 = 1" using R by (intro cast_id_supported)
  show ?thesis
  proof (cases "s = 0")
    case True
    then show ?thesis using c1 by (simp add: fixed_point_shifted_def shift_def del: cast.simps)
  next
    case False
    have "10 ^ nat (- s) \<le> numeric_limits_max R" using fit by (simp add: in_range_def)
    moreover have "numeric_limits_max R \<le> - numeric_limits_min R"
      using R by (auto simp: is_supported_representation_type_def)
    ultimately have "10 ^ nat (- s) \<le> - numeric_limits_min R" by linarith
    then have k: "int (nat (- s)) \<le> max_exp10 R" using pow10_fits [OF R] by blast
    then have e: "- s \<le> max_exp10 R" using s by simp
    have "max_exp10 R \<le> 38" by (simp add: max_exp10_def)
    then have cs: "cast int32_t s = s" "cast int32_t (- s) = - s"
      using s e by (simp_all add: cast_int32_id del: cast.simps)
    have "multiply_power10 R R 1 (- s) = cast R (1 * 10 ^ nat (- s))"
      using R one s e by (intro multiply_power10_supported) simp_all
    also have "\<dots> = 10 ^ nat (- s)" using R fit by (simp add: cast_id_supported del: cast.simps)
    finally show ?thesis using False s c1 cs
      by (simp add: fixed_point_shifted_def shift_def left_shift_def del: cast.simps)
  qed
qed

section \<open>Rescaling without overflow\<close>

lemma shift_zero:
  assumes R: "is_supported_representation_type R"
  shows "shift R BASE_10 R 0 k = 0"
proof -
  have z: "in_range R 0" using limits_sign [of R] by (simp add: in_range_def)
  have d: "divide_power10 R R 0 e = 0" for e
  proof (cases "0 \<le> e")
    case True
    then show ?thesis using R z by (intro divide_power10_small) simp_all
  next
    case False
    then show ?thesis by (intro divide_power10_out_of_range) simp
  qed
  have m: "multiply_power10 R R 0 e = 0" for e
  proof (cases "0 \<le> e \<and> e \<le> max_exp10 R")
    case True
    then have "multiply_power10 R R 0 e = cast R (0 * 10 ^ nat e)"
      using R z by (intro multiply_power10_supported) simp_all
    then show ?thesis using R z by (simp add: cast_id_supported del: cast.simps)
  next
    case False
    then show ?thesis by (intro multiply_power10_out_of_range) auto
  qed
  show ?thesis by (simp add: shift_def right_shift_def left_shift_def d m del: cast.simps)
qed

lemma pow_le_of_fits:
  fixes c p M :: int
  assumes "c \<noteq> 0" "0 < p" "- M \<le> c * p" "c * p \<le> M - 1"
  shows "p \<le> M"
proof (cases "0 < c")
  case True
  then have "1 * p \<le> c * p" using assms(2) by (intro mult_right_mono) simp_all
  then have "p \<le> c * p" by simp
  then show ?thesis using assms(4) by linarith
next
  case False
  then have "1 * p \<le> (- c) * p" using assms(1,2) by (intro mult_right_mono) simp_all
  then have "p \<le> - (c * p)" by simp
  then show ?thesis using assms(3) by linarith
qed

lemma sdiv_mult_cancel: "0 < (k::int) \<Longrightarrow> (c * k) sdiv k = c"
  by (simp add: signed_divide_int_def abs_mult sgn_mult) (simp add: sgn_if)

lemma supported_limits:
  assumes "is_supported_representation_type R"
  shows "in_range R v \<longleftrightarrow> numeric_limits_min R \<le> v \<and> v \<le> - numeric_limits_min R - 1"
  using assms by (auto simp: is_supported_representation_type_def in_range_def)

lemma supported_bits_le: "is_supported_representation_type R \<Longrightarrow> bits R \<le> 128"
  by (auto simp: is_supported_representation_type_def)

lemma rescaled_down:
  assumes R: "is_supported_representation_type R"
    and c: "in_range R (m_value x)"
    and sc: "in_range scale_type (m_scale x)" "in_range scale_type s" "s \<le> m_scale x"
    and fits: "in_range R (m_value x * radix_value B ^ nat (m_scale x - s))"
    and cnt: "B = BASE_10 \<or> m_scale x - s < int (bits R)"
  shows "rescaled R B x s
          = \<lparr>m_value = m_value x * radix_value B ^ nat (m_scale x - s), m_scale = s\<rparr>"
proof (cases "s = m_scale x")
  case True
  then show ?thesis by (simp add: rescaled_def)
next
  case False
  define d where "d = m_scale x - s"
  have d: "0 < d" using False sc(3) by (simp add: d_def)
  have sd: "s - m_scale x = - d" by (simp add: d_def)
  have val: "shift R B R (m_value x) (cast scale_type (- d)) = m_value x * radix_value B ^ nat d"
  proof (cases B)
    case BASE_10
    show ?thesis
    proof (cases "m_value x = 0")
      case True
      then show ?thesis using shift_zero [OF R] BASE_10 by simp
    next
      case nz: False
      have "10 ^ nat d \<le> - numeric_limits_min R"
        using pow_le_of_fits [OF nz, of "10 ^ nat d" "- numeric_limits_min R"] fits BASE_10
        by (simp add: supported_limits [OF R] d_def)
      then have "int (nat d) \<le> max_exp10 R" using pow10_fits [OF R] by blast
      then have e: "d \<le> max_exp10 R" using d by simp
      have "max_exp10 R \<le> 38" by (simp add: max_exp10_def)
      then have cs: "cast int32_t (- d) = - d" "cast int32_t d = d"
        using d e by (simp_all add: cast_int32_id del: cast.simps)
      have "multiply_power10 R R (m_value x) d = cast R (m_value x * 10 ^ nat d)"
        using R c d e by (intro multiply_power10_supported) simp_all
      also have "\<dots> = m_value x * 10 ^ nat d"
        using R fits BASE_10 by (simp add: cast_id_supported d_def del: cast.simps)
      finally show ?thesis using d cs BASE_10
        by (simp add: shift_def left_shift_def del: cast.simps)
    qed
  next
    case BASE_2
    then have "d < int (bits R)" using cnt by (simp add: d_def)
    then have "d \<le> 128" using supported_bits_le [OF R] by simp
    then have cs: "cast int32_t (- d) = - d" "cast int32_t d = d"
      using d by (simp_all add: cast_int32_id del: cast.simps)
    have "cast R (m_value x * 2 ^ nat d) = m_value x * 2 ^ nat d"
      using R fits BASE_2 by (simp add: cast_id_supported d_def del: cast.simps)
    then show ?thesis using d cs BASE_2
      by (simp add: shift_def left_shift_def del: cast.simps)
  qed
  have val': "shift R B R (m_value x) (cast scale_type (s - m_scale x))
      = m_value x * radix_value B ^ nat (m_scale x - s)"
    unfolding sd using val unfolding d_def .
  show ?thesis using False val' by (simp add: rescaled_def del: cast.simps)
qed

lemma rescaled_back:
  assumes R: "is_supported_representation_type R"
    and c: "in_range R c"
    and sc: "in_range scale_type sx" "in_range scale_type s" "s \<le> sx"
    and fits: "in_range R (c * radix_value B ^ nat (sx - s))"
    and cnt: "B = BASE_10 \<or> sx - s < int (bits R)"
  shows "rescaled R B \<lparr>m_value = c * radix_value B ^ nat (sx - s), m_scale = s\<rparr> sx
          = \<lparr>m_value = c, m_scale = sx\<rparr>"
proof (cases "s = sx")
  case True
  then show ?thesis by (simp add: rescaled_def)
next
  case False
  define d where "d = sx - s"
  have d: "0 < d" using False sc(3) by (simp add: d_def)
  have val: "shift R B R (c * radix_value B ^ nat d) (cast scale_type d) = c"
  proof (cases B)
    case BASE_10
    show ?thesis
    proof (cases "c = 0")
      case True
      then show ?thesis using shift_zero [OF R] BASE_10 by simp
    next
      case nz: False
      have "10 ^ nat d \<le> - numeric_limits_min R"
        using pow_le_of_fits [OF nz, of "10 ^ nat d" "- numeric_limits_min R"] fits BASE_10
        by (simp add: supported_limits [OF R] d_def)
      then have k: "int (nat d) \<le> max_exp10 R" "\<not> (R = int64_t \<and> nat d = 19)"
        using pow10_fits [OF R] by blast+
      then have e: "d \<le> max_exp10 R" using d by simp
      have n19: "\<not> (R = int64_t \<and> d = 19)" using k(2) d by auto
      have "max_exp10 R \<le> 38" by (simp add: max_exp10_def)
      then have cs: "cast int32_t d = d"
        using d e by (simp_all add: cast_int32_id del: cast.simps)
      have f: "in_range R (c * 10 ^ nat d)" using fits BASE_10 by (simp add: d_def)
      have d0: "0 \<le> d" using d by simp
      have nn: "R = int64_t \<and> d = 19 \<longrightarrow> 0 \<le> c * 10 ^ nat d" using n19 by blast
      have "divide_power10 R R (c * 10 ^ nat d) d = (c * 10 ^ nat d) sdiv 10 ^ nat d"
        by (rule divide_power10_supported [OF R f d0 e nn])
      also have "\<dots> = c" by (intro sdiv_mult_cancel) simp
      finally show ?thesis using d cs BASE_10
        by (simp add: shift_def right_shift_def del: cast.simps)
    qed
  next
    case BASE_2
    then have "d < int (bits R)" using cnt by (simp add: d_def)
    then have "d \<le> 128" using supported_bits_le [OF R] by simp
    then have cs: "cast int32_t d = d"
      using d by (simp_all add: cast_int32_id del: cast.simps)
    have "cast R c = c" using R c by (rule cast_id_supported)
    then show ?thesis using d cs BASE_2
      by (simp add: shift_def right_shift_def del: cast.simps)
  qed
  show ?thesis using False val by (simp add: rescaled_def d_def del: cast.simps)
qed

section \<open>Subtraction and modulo without overflow\<close>

lemma in_range_smod:
  assumes "in_range R l"
  shows "in_range R (l smod r)"
proof -
  have a: "0 \<le> \<bar>l\<bar> mod \<bar>r\<bar>" by (cases "r = 0") simp_all
  have b: "\<bar>l\<bar> mod \<bar>r\<bar> \<le> \<bar>l\<bar>" by (rule zmod_le_nonneg_dividend) simp
  have "(0 \<le> l \<longrightarrow> 0 \<le> l smod r \<and> l smod r \<le> l) \<and> (l \<le> 0 \<longrightarrow> l \<le> l smod r \<and> l smod r \<le> 0)"
    using a b by (auto simp: signed_modulo_int_def sgn_if)
  then show ?thesis using assms limits_sign [of R] unfolding in_range_def
    by (cases "0 \<le> l") linarith+
qed

lemma operator_minus_exact:
  assumes R: "is_supported_representation_type R"
    and s: "s = min (m_scale lhs) (m_scale rhs)"
    and l: "in_range R (m_value (rescaled R B lhs s))"
    and r: "in_range R (m_value (rescaled R B rhs s))"
    and diff: "in_range R (m_value (rescaled R B lhs s) - m_value (rescaled R B rhs s))"
  shows "operator_minus dbg R B lhs rhs
          = Some \<lparr>m_value = m_value (rescaled R B lhs s) - m_value (rescaled R B rhs s),
                  m_scale = s\<rparr>"
proof -
  obtain n where n: "R = Signed n" "32 \<le> n" using supported_signed [OF R] by blast
  have "\<not> subtraction_overflow R R (m_value (rescaled R B lhs s)) (m_value (rescaled R B rhs s))"
    using subtraction_overflow_signed [of n] l r diff n by simp
  moreover have "cast R (m_value (rescaled R B lhs s) - m_value (rescaled R B rhs s))
      = m_value (rescaled R B lhs s) - m_value (rescaled R B rhs s)"
    using R diff by (rule cast_id_supported)
  ultimately show ?thesis unfolding operator_minus_def Let_def s [symmetric] by simp
qed

lemma operator_modulo_exact:
  assumes R: "is_supported_representation_type R"
    and s: "s = min (m_scale lhs) (m_scale rhs)"
    and l: "in_range R (m_value (rescaled R B lhs s))"
    and nz: "m_value (rescaled R B rhs s) \<noteq> 0"
  shows "operator_modulo R B lhs rhs
          = Some \<lparr>m_value = m_value (rescaled R B lhs s) smod m_value (rescaled R B rhs s),
                  m_scale = s\<rparr>"
proof -
  have "cast R (m_value (rescaled R B lhs s) smod m_value (rescaled R B rhs s))
      = m_value (rescaled R B lhs s) smod m_value (rescaled R B rhs s)"
    using R l by (intro cast_id_supported in_range_smod)
  then show ?thesis using nz unfolding operator_modulo_def Let_def s [symmetric] by simp
qed

section \<open>Formatting a state with a negative scale\<close>

lemma dec_digits_length: "0 < k \<Longrightarrow> n < 10 ^ k \<Longrightarrow> length (dec_digits n) \<le> k"
proof (induction k arbitrary: n)
  case 0
  then show ?case by simp
next
  case (Suc k)
  show ?case
  proof (cases "n < 10")
    case True
    then show ?thesis by (simp add: dec_digits.simps)
  next
    case False
    have k: "0 < k"
    proof (rule ccontr)
      assume "\<not> 0 < k"
      then show False using Suc.prems False by simp
    qed
    have "n < 10 ^ k * 10" using Suc.prems by (simp add: mult.commute)
    then have "n div 10 < 10 ^ k" by (simp add: div_less_iff_less_mult)
    then have "length (dec_digits (n div 10)) \<le> k" using k by (rule Suc.IH [rotated])
    then show ?thesis using False by (subst dec_digits.simps) simp
  qed
qed

lemma dec_digits_nonempty: "dec_digits n \<noteq> []"
  by (subst dec_digits.simps) simp

lemma to_string_negative_scale:
  assumes R: "is_supported_representation_type R"
    and s: "s < 0" and fit: "in_range R (10 ^ nat (- s))"
  shows "to_string R \<lparr>m_value = c, m_scale = s\<rparr>
          = Some ((if c < 0 then ''-'' else []) @ detail_to_string (\<bar>c\<bar> div 10 ^ nat (- s)) @ ''.''
                   @ pad_left (nat (- s)) (detail_to_string (\<bar>c\<bar> mod 10 ^ nat (- s))))"
    and "length (pad_left (nat (- s)) (detail_to_string (\<bar>c\<bar> mod 10 ^ nat (- s)))) = nat (- s)"
proof -
  define k where "k = nat (- s)"
  define n :: int where "n = 10 ^ k"
  have k0: "0 < k" using s by (simp add: k_def)
  have ks: "- s = int k" using s by (simp add: k_def)
  have n0: "0 < n" by (simp add: n_def)
  have "10 ^ k \<le> - numeric_limits_min R"
    using fit by (simp add: supported_limits [OF R] k_def)
  then have "int k \<le> max_exp10 R" using pow10_fits [OF R] by blast
  moreover have "max_exp10 R \<le> 38" by (simp add: max_exp10_def)
  ultimately have k38: "k \<le> 38" by simp
  have cs: "cast int32_t (int k) = int k" using k38 by (intro cast_int32_id) simp_all
  have av: "detail_abs c = \<bar>c\<bar>" by (simp add: detail_abs_def)
  have fitk: "in_range R (10 ^ k)" using fit by (simp add: k_def)
  have "cast R (detail_exp10 R (int k)) = cast R (10 ^ k)"
    by (simp add: detail_exp10_def del: cast.simps)
  also have "\<dots> = 10 ^ k" using R fitk by (rule cast_id_supported)
  finally have nn: "cast R (detail_exp10 R (int k)) = n" by (simp add: n_def)
  have q: "\<bar>c\<bar> sdiv n = \<bar>c\<bar> div n" using n0 by (intro sdiv_nonneg) simp_all
  have m: "\<bar>c\<bar> smod n = \<bar>c\<bar> mod n" using n0 by (simp add: signed_modulo_int_def sgn_if)
  have m0: "0 \<le> \<bar>c\<bar> mod n" using n0 by simp
  have m2: "\<bar>c\<bar> mod n < n" using n0 by simp
  have nr: "in_range R n" using fitk by (simp add: n_def)
  have mr: "in_range R (\<bar>c\<bar> mod n)"
    using nr m0 m2 limits_sign [of R] unfolding in_range_def by linarith
  have cm: "cast R (\<bar>c\<bar> mod n) = \<bar>c\<bar> mod n" using R mr by (rule cast_id_supported)
  have fs: "detail_to_string (\<bar>c\<bar> mod n) = dec_digits (nat (\<bar>c\<bar> mod n))"
    using m0 by (simp add: detail_to_string_def)
  have "nat (\<bar>c\<bar> mod n) < 10 ^ k" using m2 m0 by (simp add: n_def nat_less_iff)
  then have len: "length (dec_digits (nat (\<bar>c\<bar> mod n))) \<le> k" using k0 by (intro dec_digits_length)
  then have len38: "int (length (dec_digits (nat (\<bar>c\<bar> mod n)))) \<le> 38" using k38 by simp
  have cl: "cast int32_t (int (length (dec_digits (nat (\<bar>c\<bar> mod n)))))
      = int (length (dec_digits (nat (\<bar>c\<bar> mod n))))"
    using len38 by (intro cast_int32_id) simp_all
  have cd: "cast int32_t (int k - int (length (dec_digits (nat (\<bar>c\<bar> mod n)))))
      = int k - int (length (dec_digits (nat (\<bar>c\<bar> mod n))))"
    using len k38 by (intro cast_int32_id) simp_all
  have z: "nat (max 0 (int k - int (length (dec_digits (nat (\<bar>c\<bar> mod n))))))
      = k - length (dec_digits (nat (\<bar>c\<bar> mod n)))"
    using len by simp
  have "to_string R \<lparr>m_value = c, m_scale = s\<rparr>
          = Some ((if c < 0 then ''-'' else []) @ detail_to_string (\<bar>c\<bar> div n) @ ''.''
                   @ pad_left k (detail_to_string (\<bar>c\<bar> mod n)))"
    using s n0 unfolding to_string_def Let_def
    by (simp add: ks cs av nn q m cm fs cl cd z pad_left_def del: cast.simps)
  then show "to_string R \<lparr>m_value = c, m_scale = s\<rparr>
          = Some ((if c < 0 then ''-'' else []) @ detail_to_string (\<bar>c\<bar> div 10 ^ nat (- s)) @ ''.''
                   @ pad_left (nat (- s)) (detail_to_string (\<bar>c\<bar> mod 10 ^ nat (- s))))"
    by (simp add: n_def k_def)
  have "length (pad_left k (detail_to_string (\<bar>c\<bar> mod n))) = k"
    using len by (simp add: pad_left_def fs)
  then show "length (pad_left (nat (- s)) (detail_to_string (\<bar>c\<bar> mod 10 ^ nat (- s)))) = nat (- s)"
    by (simp add: n_def k_def)
qed

section \<open>Claims\<close>

text \<open>
  C1. Inside the documented range the kernels return \<open>value / 10^exp10\<close>, truncated toward
  zero, and \<open>value * 10^exp10\<close>, wrapped, also for a negative \<open>value\<close> and also at
  \<open>exp10 = 19\<close> in the 64-bit kernels. The lemmas of the section on the kernels inside
  their range prove this for every arm but one: \<^verbatim>\<open>divide_power10_64bit\<close> at 19 divides
  by the unsigned literal \<^verbatim>\<open>10000000000000000000ULL\<close>, so a negative 64-bit \<open>value\<close> is
  converted to \<^verbatim>\<open>unsigned long long\<close> first. For \<open>value = -1\<close> the kernel, and with it
  the constructor of a 64-bit decimal at scale 19, returns 1, where \<open>-1 / 10^19\<close> is 0.
\<close>

theorem divide_power10_64bit_negative_exp19:
  "divide_power10_64bit int64_t (- 1) 19 = 1 \<and> (- 1) sdiv (10 ^ 19 :: int) = 0
   \<and> fixed_point_shifted int64_t BASE_10 (- 1) 19 = \<lparr>m_value = 1, m_scale = 19\<rparr>"
  by (simp add: divide_power10_64bit_def div_lit_def arith_type_def signed_divide_int_def
        fixed_point_shifted_def shift_def right_shift_def divide_power10_def)

text \<open>
  C8. For an exponent outside the documented range of a kernel (negative, or above 9, 19
  or 38), every \<^verbatim>\<open>divide_power10_Nbit\<close> and \<^verbatim>\<open>multiply_power10_Nbit\<close> returns zero,
  whatever the value and its type.
\<close>

theorem out_of_range_exponent_returns_zero:
  "(e < 0 \<or> 9 < e \<longrightarrow>
      divide_power10_32bit T v e = 0 \<and> multiply_power10_32bit T v e = 0) \<and>
   (e < 0 \<or> 19 < e \<longrightarrow>
      divide_power10_64bit T v e = 0 \<and> multiply_power10_64bit T v e = 0) \<and>
   (e < 0 \<or> 38 < e \<longrightarrow>
      divide_power10_128bit T v e = 0 \<and> multiply_power10_128bit T v e = 0)"
  by (auto simp: multiply_power10_32bit_def
        multiply_power10_64bit_def multiply_power10_128bit_def divide_power10_32bit_def
        divide_power10_64bit_def divide_power10_128bit_def)

theorem out_of_range_exponent_returns_zero_witness:
  "divide_power10_32bit int32_t 12345 10 = 0 \<and> multiply_power10_32bit int32_t 12345 10 = 0 \<and>
   divide_power10_64bit int64_t (- 7) (- 1) = 0 \<and> multiply_power10_64bit int64_t (- 7) (- 1) = 0 \<and>
   divide_power10_128bit int128_t 5 39 = 0 \<and> multiply_power10_128bit int128_t 5 39 = 0"
  using out_of_range_exponent_returns_zero [of 10 int32_t 12345]
        out_of_range_exponent_returns_zero [of "- 1" int64_t "- 7"]
        out_of_range_exponent_returns_zero [of 39 int128_t 5]
  by simp

text \<open>
  C2, as stated, fails: the 32-bit decimal constructed from 150 at scale -2 does not
  store the coefficient 150.
\<close>

theorem scaled_construction_150_counterexample:
  "fixed_point_shifted int32_t BASE_10 150 (- 2) \<noteq> \<lparr>m_value = 150, m_scale = - 2\<rparr>"
  by (simp add: shifted_unfold multiply_power10_32bit_def mul_lit_def arith_type_def)

text \<open>
  C2 (amended). Constructing a fixed-point number from an integer and a scale stores the
  coefficient \<open>shift<R,B>(R(value), scale)\<close> and the scale. For the 32-bit decimal,
  constructing from 150 at scale -2 stores coefficient 15000 and scale -2 (the integer
  150 written with two decimals), and constructing from 150 at scale +2 stores
  coefficient 1 (150 / 100) and scale +2. The claim's coefficient 150 at scale -2 is not
  what the constructor stores.
\<close>

theorem scaled_construction_stores_shifted:
  "fixed_point_shifted Rep Rad v scale
     = \<lparr>m_value = shift Rep Rad Rep (cast Rep v) scale, m_scale = scale\<rparr> \<and>
   fixed_point_shifted int32_t BASE_10 150 (- 2) = \<lparr>m_value = 15000, m_scale = - 2\<rparr> \<and>
   fixed_point_shifted int32_t BASE_10 150 2 = \<lparr>m_value = 1, m_scale = 2\<rparr>"
  by (simp add: shifted_unfold divide_power10_32bit_def multiply_power10_32bit_def
        mul_lit_def div_lit_def arith_type_def signed_divide_int_def)

text \<open>
  C4, as stated, fails: the 32-bit decimal constructed from 1001 at scale -3 is not
  formatted as \<open>1.001\<close>.
\<close>

theorem construct_1001_to_string_counterexample:
  "to_string int32_t (fixed_point_shifted int32_t BASE_10 1001 (- 3)) \<noteq> Some ''1.001''"
  by (simp add: shifted_unfold multiply_power10_32bit_def mul_lit_def arith_type_def
        to_string_unfold) (simp add: string_eval)

text \<open>
  C4 (amended). For the 32-bit decimal, constructing from 1001 at scale -3 and formatting
  gives \<open>1001.000\<close>: the constructor shifts 1001 to the coefficient 1001000. The string
  \<open>1.001\<close> is the rendering of the raw state with coefficient 1001 and scale -3, built
  from a \<^verbatim>\<open>scaled_integer\<close>.
\<close>

theorem construct_1001_to_string:
  "to_string int32_t (fixed_point_shifted int32_t BASE_10 1001 (- 3)) = Some ''1001.000'' \<and>
   to_string int32_t (fixed_point_raw \<lparr>si_value = 1001, si_scale = - 3\<rparr>) = Some ''1.001''"
  by (simp add: shifted_unfold multiply_power10_32bit_def mul_lit_def arith_type_def
        to_string_unfold fixed_point_raw_def) (simp add: string_eval)

text \<open>
  C10. A base-10 fixed-point number whose scale exceeds, in absolute value, the exponent
  range of the kernel of its own representation type (9, 19 or 38) converts to 0 in every
  integer type \<open>U\<close>: the conversion widens the coefficient to the common type of \<open>U\<close> and
  \<open>Rep\<close>, but the shift still selects the kernel by the size of \<open>Rep\<close>, and the exponent
  falls to the zero sentinel. So the 32-bit decimal with coefficient 5 and scale 10
  converts to 0 in \<^verbatim>\<open>int64_t\<close>, which could hold \<open>5 * 10^10\<close>.
\<close>

theorem conversion_out_of_range_scale_is_zero:
  assumes "0 < bits U" "in_range scale_type (m_scale x)" "max_exp10 Rep < \<bar>m_scale x\<bar>"
  shows "to_integral U Rep BASE_10 x = 0"
  using shift_out_of_range [OF assms(2,3)] cast_zero [OF assms(1)]
  by (simp add: to_integral_def Let_def del: cast.simps)

theorem conversion_out_of_range_scale_is_zero_witness:
  "to_integral int64_t int32_t BASE_10 \<lparr>m_value = 5, m_scale = 10\<rparr> = 0 \<and>
   to_integral int64_t int32_t BASE_10 \<lparr>m_value = 5, m_scale = - 10\<rparr> = 0 \<and>
   to_integral int128_t int64_t BASE_10 \<lparr>m_value = 1, m_scale = 20\<rparr> = 0 \<and>
   to_integral int128_t int128_t BASE_10 \<lparr>m_value = 1, m_scale = - 39\<rparr> = 0 \<and>
   in_range int64_t (5 * 10 ^ 10)"
  using conversion_out_of_range_scale_is_zero [of int64_t "\<lparr>m_value = 5, m_scale = 10\<rparr>" int32_t]
        conversion_out_of_range_scale_is_zero [of int64_t "\<lparr>m_value = 5, m_scale = - 10\<rparr>" int32_t]
        conversion_out_of_range_scale_is_zero [of int128_t "\<lparr>m_value = 1, m_scale = 20\<rparr>" int64_t]
        conversion_out_of_range_scale_is_zero [of int128_t "\<lparr>m_value = 1, m_scale = - 39\<rparr>" int128_t]
  by (simp add: in_range_def max_exp10_def)

text \<open>
  C6. For operands \<open>lhs\<close> and \<open>rhs\<close> of a supported representation type \<open>R\<close>,
  \<^verbatim>\<open>addition_overflow<R>\<close> is true exactly when \<open>lhs + rhs\<close>, computed in unbounded
  integers, lies outside \<open>[MIN_R, MAX_R]\<close>; likewise \<^verbatim>\<open>subtraction_overflow<R>\<close> for
  \<open>lhs - rhs\<close>, \<^verbatim>\<open>multiplication_overflow<R>\<close> for \<open>lhs * rhs\<close>, and, for \<open>rhs\<close> not
  zero, \<^verbatim>\<open>division_overflow<R>\<close> for the truncated quotient, which overflows only for
  \<open>lhs = MIN_R\<close> and \<open>rhs = -1\<close>.
\<close>

theorem overflow_predicates_sound:
  assumes "is_supported_representation_type R" "in_range R lhs" "in_range R rhs"
  shows "(addition_overflow R R lhs rhs \<longleftrightarrow> \<not> in_range R (lhs + rhs)) \<and>
         (subtraction_overflow R R lhs rhs \<longleftrightarrow> \<not> in_range R (lhs - rhs)) \<and>
         (multiplication_overflow R R lhs rhs \<longleftrightarrow> \<not> in_range R (lhs * rhs)) \<and>
         (rhs \<noteq> 0 \<longrightarrow>
            (division_overflow R R lhs rhs \<longleftrightarrow> \<not> in_range R (lhs sdiv rhs)) \<and>
            (division_overflow R R lhs rhs \<longleftrightarrow> lhs = numeric_limits_min R \<and> rhs = - 1))"
proof -
  obtain n where R: "R = Signed n" and n: "32 \<le> n"
    using assms(1) by (auto simp: is_supported_representation_type_def)
  have l: "in_range (Signed n) lhs" and r: "in_range (Signed n) rhs" using assms(2,3) R by simp_all
  show ?thesis unfolding R
    using addition_overflow_signed [OF n l r] subtraction_overflow_signed [OF n l r]
      multiplication_overflow_signed [OF n l r] division_overflow_signed [OF n l r]
    by blast
qed

theorem overflow_predicates_sound_witness:
  "addition_overflow int32_t int32_t 2147483647 1 \<and>
   \<not> subtraction_overflow int32_t int32_t 2147483647 1 \<and>
   \<not> multiplication_overflow int32_t int32_t 2147483647 1 \<and>
   \<not> division_overflow int32_t int32_t 2147483647 1 \<and>
   addition_overflow int64_t int64_t (- 9223372036854775808) (- 1) \<and>
   subtraction_overflow int64_t int64_t (- 9223372036854775808) 1 \<and>
   multiplication_overflow int64_t int64_t (- 9223372036854775808) (- 1) \<and>
   division_overflow int64_t int64_t (- 9223372036854775808) (- 1)"
  using overflow_predicates_sound [of int32_t 2147483647 1]
        overflow_predicates_sound [of int64_t "- 9223372036854775808" "- 1"]
        overflow_predicates_sound [of int64_t "- 9223372036854775808" 1]
  by (simp add: is_supported_representation_type_def in_range_def)

text \<open>
  C9. For a base-10 fixed-point number \<open>x\<close> whose scale \<open>s\<close> is at least 1, pre-increment
  leaves coefficient and scale unchanged: the operand it adds is constructed as
  \<^verbatim>\<open>fixed_point{1, s}\<close>, whose construction shifts 1 right by \<open>s\<close> digits, which gives
  0. Pre-increment adds one to the represented value only for \<open>s \<le> 0\<close>: there, when
  \<open>10^(-s)\<close> and the sum fit the representation type, the coefficient grows by
  \<open>10^(-s)\<close>.
\<close>

theorem pre_increment_positive_scale_adds_nothing:
  assumes "is_supported_representation_type R" "well_formed R x"
  shows "(1 \<le> m_scale x \<longrightarrow>
            fixed_point_shifted R BASE_10 1 (m_scale x) = \<lparr>m_value = 0, m_scale = m_scale x\<rparr> \<and>
            operator_increment dbg R BASE_10 x = Some x) \<and>
         (m_scale x \<le> 0 \<and> in_range R (10 ^ nat (- m_scale x)) \<and>
          in_range R (m_value x + 10 ^ nat (- m_scale x)) \<longrightarrow>
            operator_increment dbg R BASE_10 x
              = Some \<lparr>m_value = m_value x + 10 ^ nat (- m_scale x), m_scale = m_scale x\<rparr>)"
proof (intro conjI impI)
  assume s: "1 \<le> m_scale x"
  have v: "in_range R (m_value x)" and sc: "in_range scale_type (m_scale x)"
    using assms(2) by (simp_all add: well_formed_def)
  show one: "fixed_point_shifted R BASE_10 1 (m_scale x) = \<lparr>m_value = 0, m_scale = m_scale x\<rparr>"
    using assms(1) s sc by (rule shifted_one_positive_scale)
  have z: "in_range R 0" using limits_sign [of R] by (simp add: in_range_def)
  have "operator_plus dbg R BASE_10 x \<lparr>m_value = 0, m_scale = m_scale x\<rparr>
          = Some \<lparr>m_value = m_value x + 0, m_scale = m_scale x\<rparr>"
    using operator_plus_exact [of R "m_scale x" x "\<lparr>m_value = 0, m_scale = m_scale x\<rparr>" BASE_10 dbg]
      assms(1) v z by (simp add: rescaled_def)
  then show "operator_increment dbg R BASE_10 x = Some x"
    unfolding operator_increment_def one by simp
next
  assume h: "m_scale x \<le> 0 \<and> in_range R (10 ^ nat (- m_scale x)) \<and>
          in_range R (m_value x + 10 ^ nat (- m_scale x))"
  have v: "in_range R (m_value x)" using assms(2) by (simp add: well_formed_def)
  have one: "fixed_point_shifted R BASE_10 1 (m_scale x)
      = \<lparr>m_value = 10 ^ nat (- m_scale x), m_scale = m_scale x\<rparr>"
    using assms(1) h by (intro shifted_one_nonpositive_scale) simp_all
  show "operator_increment dbg R BASE_10 x
          = Some \<lparr>m_value = m_value x + 10 ^ nat (- m_scale x), m_scale = m_scale x\<rparr>"
    unfolding operator_increment_def one
    using operator_plus_exact [of R "m_scale x" x
        "\<lparr>m_value = 10 ^ nat (- m_scale x), m_scale = m_scale x\<rparr>" BASE_10 dbg]
      assms(1) v h by (simp add: rescaled_def)
qed

theorem pre_increment_positive_scale_adds_nothing_witness:
  "fixed_point_shifted int32_t BASE_10 1 2 = \<lparr>m_value = 0, m_scale = 2\<rparr> \<and>
   operator_increment True int32_t BASE_10 \<lparr>m_value = 5, m_scale = 2\<rparr>
     = Some \<lparr>m_value = 5, m_scale = 2\<rparr> \<and>
   operator_increment True int32_t BASE_10 \<lparr>m_value = 5, m_scale = - 2\<rparr>
     = Some \<lparr>m_value = 105, m_scale = - 2\<rparr>"
  using pre_increment_positive_scale_adds_nothing [of int32_t "\<lparr>m_value = 5, m_scale = 2\<rparr>" True]
        pre_increment_positive_scale_adds_nothing [of int32_t "\<lparr>m_value = 5, m_scale = - 2\<rparr>" True]
  by (simp add: is_supported_representation_type_def well_formed_def in_range_def)

text \<open>
  C7. Rescaling a fixed-point number \<open>x\<close> down to a finer scale \<open>s \<le> x.scale()\<close> and
  back to \<open>x.scale()\<close> gives \<open>x\<close> again, when the shifted coefficient
  \<open>x.value() * B^(x.scale() - s)\<close> fits the representation type (in base 2 the shift
  count is below the width, as the C++ shift operators require); and rescaling \<open>x\<close> to
  its own scale returns \<open>x\<close> itself. In base 10 no bound on the scale difference is
  needed: a coefficient other than zero that fits after the shift keeps the difference
  inside the kernel range, and zero is shifted to zero by every arm.
\<close>

theorem rescale_down_and_back:
  assumes "is_supported_representation_type R" "well_formed R x"
    and "in_range scale_type s" "s \<le> m_scale x"
    and "in_range R (m_value x * radix_value B ^ nat (m_scale x - s))"
    and "B = BASE_10 \<or> m_scale x - s < int (bits R)"
  shows "rescaled R B (rescaled R B x s) (m_scale x) = x \<and> rescaled R B x (m_scale x) = x"
proof -
  have c: "in_range R (m_value x)" and sx: "in_range scale_type (m_scale x)"
    using assms(2) by (simp_all add: well_formed_def)
  have "rescaled R B (rescaled R B x s) (m_scale x) = \<lparr>m_value = m_value x, m_scale = m_scale x\<rparr>"
    unfolding rescaled_down [OF assms(1) c sx assms(3,4,5,6)]
    by (rule rescaled_back [OF assms(1) c sx assms(3,4,5,6)])
  then show ?thesis by (simp add: rescaled_same)
qed

theorem rescale_down_and_back_witness:
  "rescaled int32_t BASE_10 \<lparr>m_value = 15, m_scale = - 1\<rparr> (- 3)
     = \<lparr>m_value = 1500, m_scale = - 3\<rparr> \<and>
   rescaled int32_t BASE_10 (rescaled int32_t BASE_10 \<lparr>m_value = 15, m_scale = - 1\<rparr> (- 3)) (- 1)
     = \<lparr>m_value = 15, m_scale = - 1\<rparr> \<and>
   rescaled int64_t BASE_2 (rescaled int64_t BASE_2 \<lparr>m_value = - 3, m_scale = 4\<rparr> 1) 4
     = \<lparr>m_value = - 3, m_scale = 4\<rparr>"
  using rescale_down_and_back [of int32_t "\<lparr>m_value = 15, m_scale = - 1\<rparr>" "- 3" BASE_10]
        rescale_down_and_back [of int64_t "\<lparr>m_value = - 3, m_scale = 4\<rparr>" 1 BASE_2]
        rescaled_down [of int32_t "\<lparr>m_value = 15, m_scale = - 1\<rparr>" "- 3" BASE_10]
  by (simp add: is_supported_representation_type_def well_formed_def in_range_def)

text \<open>
  C5. For two fixed-point numbers of the same representation type and base, let \<open>s\<close> be
  the smaller of the two scales. When the rescaled coefficients
  \<open>value * B^(scale - s)\<close> fit the representation type (in base 2 with shift counts
  below the width), addition, subtraction, modulo and the six comparisons rescale both
  operands to \<open>s\<close>, which changes only the operand with the larger scale, and then
  operate on the coefficients: the sum, the difference (when they fit) and the remainder
  (for a divisor other than zero whose quotient fits) carry the scale \<open>s\<close>, in a debug
  build as well, and every comparison is the comparison of the rescaled coefficients.
\<close>

theorem binary_operators_rescale_to_smaller_scale:
  fixes lhs rhs :: fixed_point and B :: Radix
  defines "s \<equiv> min (m_scale lhs) (m_scale rhs)"
  defines "l \<equiv> m_value lhs * radix_value B ^ nat (m_scale lhs - s)"
  defines "r \<equiv> m_value rhs * radix_value B ^ nat (m_scale rhs - s)"
  assumes R: "is_supported_representation_type R"
    and wl: "well_formed R lhs" and wr: "well_formed R rhs"
    and fl: "in_range R l" and fr: "in_range R r"
    and cnt: "B = BASE_10 \<or> (m_scale lhs - s < int (bits R) \<and> m_scale rhs - s < int (bits R))"
  shows "rescaled R B lhs s = \<lparr>m_value = l, m_scale = s\<rparr> \<and>
         rescaled R B rhs s = \<lparr>m_value = r, m_scale = s\<rparr> \<and>
         (m_scale lhs \<le> m_scale rhs \<longrightarrow> rescaled R B lhs s = lhs) \<and>
         (m_scale rhs \<le> m_scale lhs \<longrightarrow> rescaled R B rhs s = rhs) \<and>
         (in_range R (l + r) \<longrightarrow>
            operator_plus dbg R B lhs rhs = Some \<lparr>m_value = l + r, m_scale = s\<rparr>) \<and>
         (in_range R (l - r) \<longrightarrow>
            operator_minus dbg R B lhs rhs = Some \<lparr>m_value = l - r, m_scale = s\<rparr>) \<and>
         (r \<noteq> 0 \<and> in_range R (l sdiv r) \<longrightarrow>
            operator_modulo R B lhs rhs = Some \<lparr>m_value = l smod r, m_scale = s\<rparr>) \<and>
         operator_eq R B lhs rhs = (l = r) \<and>
         operator_ne R B lhs rhs = (l \<noteq> r) \<and>
         operator_le R B lhs rhs = (l \<le> r) \<and>
         operator_ge R B lhs rhs = (l \<ge> r) \<and>
         operator_lt R B lhs rhs = (l < r) \<and>
         operator_gt R B lhs rhs = (l > r)"
proof -
  have cl: "in_range R (m_value lhs)" and sl: "in_range scale_type (m_scale lhs)"
    and cr: "in_range R (m_value rhs)" and sr: "in_range scale_type (m_scale rhs)"
    using wl wr by (simp_all add: well_formed_def)
  have ss: "in_range scale_type s" using sl sr by (simp add: s_def min_def)
  have le: "s \<le> m_scale lhs" "s \<le> m_scale rhs" by (simp_all add: s_def)
  have cntl: "B = BASE_10 \<or> m_scale lhs - s < int (bits R)"
    and cntr: "B = BASE_10 \<or> m_scale rhs - s < int (bits R)" using cnt by auto
  have L: "rescaled R B lhs s = \<lparr>m_value = l, m_scale = s\<rparr>"
    unfolding l_def using R cl sl ss le(1) fl [unfolded l_def] cntl by (rule rescaled_down)
  have Rr: "rescaled R B rhs s = \<lparr>m_value = r, m_scale = s\<rparr>"
    unfolding r_def using R cr sr ss le(2) fr [unfolded r_def] cntr by (rule rescaled_down)
  have s_eq: "s = min (m_scale lhs) (m_scale rhs)" by (simp add: s_def)
  have vl: "m_value (rescaled R B lhs s) = l" and vr: "m_value (rescaled R B rhs s) = r"
    by (simp_all add: L Rr)
  have idl: "m_scale lhs \<le> m_scale rhs \<longrightarrow> rescaled R B lhs s = lhs"
    by (simp add: s_def min_def rescaled_same)
  have idr: "m_scale rhs \<le> m_scale lhs \<longrightarrow> rescaled R B rhs s = rhs"
    by (auto simp: s_def min_def rescaled_same)
  have plus: "in_range R (l + r) \<longrightarrow>
            operator_plus dbg R B lhs rhs = Some \<lparr>m_value = l + r, m_scale = s\<rparr>"
    using operator_plus_exact [OF R s_eq, of B dbg] fl fr by (simp add: vl vr)
  have minus: "in_range R (l - r) \<longrightarrow>
            operator_minus dbg R B lhs rhs = Some \<lparr>m_value = l - r, m_scale = s\<rparr>"
    using operator_minus_exact [OF R s_eq, of B dbg] fl fr by (simp add: vl vr)
  have modulo: "r \<noteq> 0 \<and> in_range R (l sdiv r) \<longrightarrow>
            operator_modulo R B lhs rhs = Some \<lparr>m_value = l smod r, m_scale = s\<rparr>"
    using operator_modulo_exact [OF R s_eq, of B] fl by (simp add: vl vr)
  have cmp: "operator_eq R B lhs rhs = (l = r)" "operator_ne R B lhs rhs = (l \<noteq> r)"
    "operator_le R B lhs rhs = (l \<le> r)" "operator_ge R B lhs rhs = (l \<ge> r)"
    "operator_lt R B lhs rhs = (l < r)" "operator_gt R B lhs rhs = (l > r)"
    unfolding operator_eq_def operator_ne_def operator_le_def operator_ge_def
      operator_lt_def operator_gt_def Let_def s_eq [symmetric] vl vr by simp_all
  show ?thesis using L Rr idl idr plus minus modulo cmp by blast
qed


theorem binary_operators_rescale_to_smaller_scale_witness:
  "rescaled int32_t BASE_10 \<lparr>m_value = 15, m_scale = - 1\<rparr> (- 2)
     = \<lparr>m_value = 150, m_scale = - 2\<rparr> \<and>
   rescaled int32_t BASE_10 \<lparr>m_value = 175, m_scale = - 2\<rparr> (- 2)
     = \<lparr>m_value = 175, m_scale = - 2\<rparr> \<and>
   operator_plus True int32_t BASE_10 \<lparr>m_value = 15, m_scale = - 1\<rparr> \<lparr>m_value = 175, m_scale = - 2\<rparr>
     = Some \<lparr>m_value = 325, m_scale = - 2\<rparr> \<and>
   operator_minus True int32_t BASE_10 \<lparr>m_value = 15, m_scale = - 1\<rparr> \<lparr>m_value = 175, m_scale = - 2\<rparr>
     = Some \<lparr>m_value = - 25, m_scale = - 2\<rparr> \<and>
   operator_modulo int32_t BASE_10 \<lparr>m_value = 15, m_scale = - 1\<rparr> \<lparr>m_value = 175, m_scale = - 2\<rparr>
     = Some \<lparr>m_value = 150, m_scale = - 2\<rparr> \<and>
   \<not> operator_eq int32_t BASE_10 \<lparr>m_value = 15, m_scale = - 1\<rparr> \<lparr>m_value = 175, m_scale = - 2\<rparr> \<and>
   operator_ne int32_t BASE_10 \<lparr>m_value = 15, m_scale = - 1\<rparr> \<lparr>m_value = 175, m_scale = - 2\<rparr> \<and>
   operator_le int32_t BASE_10 \<lparr>m_value = 15, m_scale = - 1\<rparr> \<lparr>m_value = 175, m_scale = - 2\<rparr> \<and>
   \<not> operator_ge int32_t BASE_10 \<lparr>m_value = 15, m_scale = - 1\<rparr> \<lparr>m_value = 175, m_scale = - 2\<rparr> \<and>
   operator_lt int32_t BASE_10 \<lparr>m_value = 15, m_scale = - 1\<rparr> \<lparr>m_value = 175, m_scale = - 2\<rparr> \<and>
   \<not> operator_gt int32_t BASE_10 \<lparr>m_value = 15, m_scale = - 1\<rparr> \<lparr>m_value = 175, m_scale = - 2\<rparr>"
  using binary_operators_rescale_to_smaller_scale
    [where R = int32_t and B = BASE_10 and dbg = True
       and lhs = "\<lparr>m_value = 15, m_scale = - 1\<rparr>" and rhs = "\<lparr>m_value = 175, m_scale = - 2\<rparr>"]
  by (simp add: is_supported_representation_type_def well_formed_def in_range_def
        signed_divide_int_def signed_modulo_int_def)

text \<open>
  C3, as stated for every raw state, fails where the representation type cannot hold
  \<open>10^(-scale)\<close>: the 32-bit state with coefficient 2000000000 and scale -10 is formatted
  as \<open>1.0589934592\<close>, where the claim gives \<open>0.2000000000\<close>.
\<close>

theorem to_string_raw_state_counterexample:
  "to_string int32_t \<lparr>m_value = 2000000000, m_scale = - 10\<rparr> = Some ''1.0589934592'' \<and>
   (if (2000000000::int) < 0 then ''-'' else []) @ detail_to_string (\<bar>2000000000\<bar> div 10 ^ nat (- (- 10)))
      @ ''.'' @ pad_left (nat (- (- 10))) (detail_to_string (\<bar>2000000000\<bar> mod 10 ^ nat (- (- 10))))
     = ''0.2000000000''"
  by (simp add: to_string_unfold pad_left_def) (simp add: string_eval)

text \<open>
  C3 (amended). For a base-10 fixed-point number in the raw state with coefficient \<open>c\<close>
  and scale \<open>s\<close>: if \<open>s < 0\<close> and \<open>10^(-s)\<close> fits the representation type, formatting
  emits \<open>-\<close> exactly when \<open>c < 0\<close>, then the decimal rendering of \<open>|c| / 10^(-s)\<close>, then
  a point, then the decimal rendering of \<open>|c| mod 10^(-s)\<close> padded on the left with zeros
  to the width \<open>-s\<close>, which it then has; if \<open>s \<ge> 0\<close>, it emits the decimal rendering of
  \<open>c\<close> followed by \<open>s\<close> zeros. The 32-bit states (1001, -3), (-5, -2) and (7, 2) are
  formatted as \<open>1.001\<close>, \<open>-0.05\<close> and \<open>700\<close>.
\<close>

theorem to_string_raw_state:
  assumes "is_supported_representation_type R" "well_formed R x"
  shows "(m_scale x < 0 \<and> in_range R (10 ^ nat (- m_scale x)) \<longrightarrow>
            to_string R x
              = Some ((if m_value x < 0 then ''-'' else [])
                      @ detail_to_string (\<bar>m_value x\<bar> div 10 ^ nat (- m_scale x)) @ ''.''
                      @ pad_left (nat (- m_scale x))
                          (detail_to_string (\<bar>m_value x\<bar> mod 10 ^ nat (- m_scale x)))) \<and>
            length (pad_left (nat (- m_scale x))
                      (detail_to_string (\<bar>m_value x\<bar> mod 10 ^ nat (- m_scale x))))
              = nat (- m_scale x)) \<and>
         (0 \<le> m_scale x \<longrightarrow>
            to_string R x
              = Some (detail_to_string (m_value x) @ replicate (nat (m_scale x)) (CHR ''0''))) \<and>
         to_string int32_t \<lparr>m_value = 1001, m_scale = - 3\<rparr> = Some ''1.001'' \<and>
         to_string int32_t \<lparr>m_value = - 5, m_scale = - 2\<rparr> = Some ''-0.05'' \<and>
         to_string int32_t \<lparr>m_value = 7, m_scale = 2\<rparr> = Some ''700''"
proof (intro conjI impI)
  assume h: "m_scale x < 0 \<and> in_range R (10 ^ nat (- m_scale x))"
  obtain c s where x: "x = \<lparr>m_value = c, m_scale = s\<rparr>" by (cases x) simp
  have hs: "s < 0" "in_range R (10 ^ nat (- s))" using h x by simp_all
  show "to_string R x
              = Some ((if m_value x < 0 then ''-'' else [])
                      @ detail_to_string (\<bar>m_value x\<bar> div 10 ^ nat (- m_scale x)) @ ''.''
                      @ pad_left (nat (- m_scale x))
                          (detail_to_string (\<bar>m_value x\<bar> mod 10 ^ nat (- m_scale x))))"
    using to_string_negative_scale(1) [OF assms(1) hs(1) hs(2), of c] x by simp
  show "length (pad_left (nat (- m_scale x))
                      (detail_to_string (\<bar>m_value x\<bar> mod 10 ^ nat (- m_scale x))))
              = nat (- m_scale x)"
    using to_string_negative_scale(2) [OF assms(1) hs(1) hs(2), of c] x by simp
next
  assume "0 \<le> m_scale x"
  then show "to_string R x
      = Some (detail_to_string (m_value x) @ replicate (nat (m_scale x)) (CHR ''0''))"
    by (simp add: to_string_def)
next
  show "to_string int32_t \<lparr>m_value = 1001, m_scale = - 3\<rparr> = Some ''1.001''"
    by (simp add: to_string_unfold) (simp add: string_eval)
  show "to_string int32_t \<lparr>m_value = - 5, m_scale = - 2\<rparr> = Some ''-0.05''"
    by (simp add: to_string_unfold) (simp add: string_eval)
  show "to_string int32_t \<lparr>m_value = 7, m_scale = 2\<rparr> = Some ''700''"
    by (simp add: to_string_unfold) (simp add: string_eval)
qed

theorem to_string_raw_state_witness:
  "to_string int32_t \<lparr>m_value = - 1234567, m_scale = - 4\<rparr> = Some ''-123.4567'' \<and>
   to_string int64_t \<lparr>m_value = 3000000007, m_scale = - 9\<rparr> = Some ''3.000000007'' \<and>
   to_string int32_t \<lparr>m_value = - 42, m_scale = 3\<rparr> = Some ''-42000'' \<and>
   to_string int32_t \<lparr>m_value = - 2147483648, m_scale = - 2\<rparr> = Some ''-21474836.48''"
  using to_string_raw_state [of int32_t "\<lparr>m_value = - 1234567, m_scale = - 4\<rparr>"]
        to_string_raw_state [of int64_t "\<lparr>m_value = 3000000007, m_scale = - 9\<rparr>"]
        to_string_raw_state [of int32_t "\<lparr>m_value = - 42, m_scale = 3\<rparr>"]
        to_string_raw_state [of int32_t "\<lparr>m_value = - 2147483648, m_scale = - 2\<rparr>"]
  by (simp add: is_supported_representation_type_def well_formed_def in_range_def pad_left_def
        string_eval)

end
